theory Spec2Isabelle
  imports Complex_Main "HOL-Library.Sublist"
begin

section \<open>JavaScript strings\<close>

text \<open>
  A JavaScript string is modelled as a \<^typ>\<open>string\<close>, one \<^typ>\<open>char\<close> per code unit
  (code units above 255 are not represented). \<open>length\<close> is \<open>String.prototype.length\<close>.
\<close>

definition newline :: char where
  "newline = CHR 0x0A"

text \<open>The separator \<open>'\n\n'\<close> that the chunker puts between paragraphs.\<close>

definition paragraphSeparator :: string where
  "paragraphSeparator = [newline, newline]"

text \<open>The code units that \<open>String.prototype.trim\<close> strips (WhiteSpace and LineTerminator).\<close>

definition isWhiteSpace :: "char \<Rightarrow> bool" where
  "isWhiteSpace c \<longleftrightarrow>
     c = CHR 0x09 \<or> c = CHR 0x0A \<or> c = CHR 0x0B \<or> c = CHR 0x0C \<or> c = CHR 0x0D \<or>
     c = CHR 0x20 \<or> c = CHR 0xA0"

definition trim :: "string \<Rightarrow> string" where
  "trim s = rev (dropWhile isWhiteSpace (rev (dropWhile isWhiteSpace s)))"

text \<open>
  \<open>s.slice(start)\<close>: a negative \<open>start\<close> counts from the end, and both directions are
  clamped to the string. \<open>slice(-0)\<close> is \<open>slice(0)\<close>, the whole string.
\<close>

definition slice_from :: "string \<Rightarrow> int \<Rightarrow> string" where
  "slice_from s start =
     (let len = int (length s);
          k = (if start < 0 then max (len + start) 0 else min start len)
      in drop (nat k) s)"

text \<open>\<open>s.slice(start, end)\<close> on arrays and strings, with the same clamping for both bounds.\<close>

definition slice :: "'a list \<Rightarrow> int \<Rightarrow> int \<Rightarrow> 'a list" where
  "slice xs start end =
     (let len = int (length xs);
          k = (if start < 0 then max (len + start) 0 else min start len);
          final = (if end < 0 then max (len + end) 0 else min end len)
      in take (nat (final - k)) (drop (nat k) xs))"

text \<open>\<open>t.indexOf(p)\<close>: the first position where \<open>p\<close> occurs in \<open>t\<close>, or \<open>-1\<close>.\<close>

fun indexOf :: "string \<Rightarrow> string \<Rightarrow> int" where
  "indexOf [] p = (if p = [] then 0 else - 1)"
| "indexOf (c # cs) p =
     (if prefix p (c # cs) then 0
      else (let r = indexOf cs p in if r < 0 then - 1 else r + 1))"

text \<open>
  \<open>text.split(/\n\n+/)\<close>: the text is cut at every maximal run of two or more newlines.
  The first argument collects, reversed, the piece being read.
\<close>

function splitAcc :: "string \<Rightarrow> string \<Rightarrow> string list" where
  "splitAcc acc [] = [rev acc]"
| "splitAcc acc [c] = [rev (c # acc)]"
| "splitAcc acc (c # d # cs) =
     (if c = newline \<and> d = newline
      then rev acc # splitAcc [] (dropWhile (\<lambda>x. x = newline) cs)
      else splitAcc (c # acc) (d # cs))"
  by pat_completeness auto
termination
  by (relation "measure (\<lambda>(acc, s). length s)")
     (auto simp: le_imp_less_Suc length_dropWhile_le less_Suc_eq_le le_SucI)

definition splitParagraphs :: "string \<Rightarrow> string list" where
  "splitParagraphs t = splitAcc [] t"

section \<open>The chunker (backend/utils/chunker.js)\<close>

record page =
  pageNumber :: int
  page_text :: string
  page_startChar :: int
  page_endChar :: int

text \<open>
  \<open>paragraphRange\<close> is a number when one paragraph contributed and the template string
  \<open>`${start}-${end}`\<close> otherwise; \<open>RangeStr a b\<close> stands for that string.
\<close>

datatype paragraphRange = SinglePara int | RangeStr int int

record metadata =
  page :: int
  paragraphNumber :: int
  paragraphRange :: paragraphRange
  startChar :: int
  endChar :: int
  chunkLength :: int

record chunk =
  chunk_text :: string
  chunkIndex :: int
  metadata :: metadata

text \<open>
  The variables of \<open>splitIntoChunksWithMetadata\<close>: \<open>allChunks\<close> and \<open>globalChunkIndex\<close>
  live across pages, the other four are reset at the start of each page.
\<close>

record chunkerState =
  allChunks :: "chunk list"
  globalChunkIndex :: int
  currentChunk :: string
  chunkStartChar :: int
  cur_paragraphNumber :: int
  chunkStartParagraph :: int

text \<open>
  The object that both \<open>allChunks.push\<close> blocks of the source build from the variables;
  they differ in the last paragraph of the range only: \<open>paragraphNumber - 1\<close> inside the
  loop, \<open>paragraphNumber\<close> at the end of the page.

  Offsets, counters and sizes are JavaScript numbers that hold integers, modelled as
  \<^typ>\<open>int\<close>. The sums of the program are those of the model as long as they stay below
  \<open>2 ^ 53\<close> in magnitude (lemmas \<open>safe_integer_add\<close> and \<open>makeChunk_endChar_double\<close>);
  beyond that a double rounds, so \<open>startChar + currentChunk.length\<close> at
  \<open>startChar = 2 ^ 53\<close> is not the integer sum. What is proved below about offsets is to be
  read for offsets in that range; the lengths of strings and the chunk counter are always
  in it.
\<close>

definition makeChunk :: "int \<Rightarrow> int \<Rightarrow> chunkerState \<Rightarrow> chunk" where
  "makeChunk pageNo lastParagraph st =
     \<lparr>chunk_text = trim (currentChunk st),
      chunkIndex = globalChunkIndex st,
      metadata = \<lparr>page = pageNo,
        paragraphNumber = chunkStartParagraph st,
        paragraphRange =
          (if chunkStartParagraph st = lastParagraph
           then SinglePara (chunkStartParagraph st)
           else RangeStr (chunkStartParagraph st) lastParagraph),
        startChar = chunkStartChar st,
        endChar = chunkStartChar st + int (length (currentChunk st)),
        chunkLength = int (length (currentChunk st))\<rparr>\<rparr>"

text \<open>The push, under its guard \<open>currentChunk.trim().length > 0\<close>, with \<open>globalChunkIndex++\<close>.\<close>

definition emitChunk :: "int \<Rightarrow> int \<Rightarrow> chunkerState \<Rightarrow> chunkerState" where
  "emitChunk pageNo lastParagraph st =
     (if length (trim (currentChunk st)) > 0 then
        st\<lparr>allChunks := allChunks st @ [makeChunk pageNo lastParagraph st],
           globalChunkIndex := globalChunkIndex st + 1\<rparr>
      else st)"

text \<open>
  One iteration of the loop over the paragraphs of a page. In the overlap branch the source
  assigns \<open>currentChunk\<close> first and reads \<open>currentChunk.length\<close> afterwards, so the new
  start offset is computed from the length of the new buffer.
\<close>

definition processParagraph ::
  "page \<Rightarrow> int \<Rightarrow> int \<Rightarrow> chunkerState \<Rightarrow> string \<Rightarrow> chunkerState" where
  "processParagraph pg chunkSize overlap st0 paragraph =
     (let st = st0\<lparr>cur_paragraphNumber := cur_paragraphNumber st0 + 1\<rparr> in
      if int (length (currentChunk st)) + int (length paragraph) > chunkSize then
        (let st1 = emitChunk (pageNumber pg) (cur_paragraphNumber st - 1) st;
             st2 =
               (if int (length (currentChunk st1)) > overlap then
                  (let overlapText = slice_from (currentChunk st1) (- overlap);
                       newChunk = overlapText @ paragraphSeparator @ paragraph
                   in st1\<lparr>currentChunk := newChunk,
                          chunkStartChar := chunkStartChar st1 + int (length newChunk)
                            - overlap - int (length paragraph)\<rparr>)
                else st1\<lparr>currentChunk := paragraph,
                       chunkStartChar := page_startChar pg + indexOf (page_text pg) paragraph\<rparr>)
         in st2\<lparr>chunkStartParagraph := cur_paragraphNumber st\<rparr>)
      else if length (currentChunk st) > 0 then
        st\<lparr>currentChunk := currentChunk st @ paragraphSeparator @ paragraph\<rparr>
      else
        st\<lparr>currentChunk := paragraph,
           chunkStartChar := page_startChar pg + indexOf (page_text pg) paragraph,
           chunkStartParagraph := cur_paragraphNumber st\<rparr>)"

text \<open>The body of the loop over pages, on the pair \<open>(allChunks, globalChunkIndex)\<close>.\<close>

definition processPage :: "int \<Rightarrow> int \<Rightarrow> chunk list \<times> int \<Rightarrow> page \<Rightarrow> chunk list \<times> int" where
  "processPage chunkSize overlap acc pg =
     (let paragraphs = filter (\<lambda>p. length (trim p) > 0) (splitParagraphs (page_text pg));
          st0 = \<lparr>allChunks = fst acc, globalChunkIndex = snd acc, currentChunk = [],
                 chunkStartChar = page_startChar pg, cur_paragraphNumber = 0,
                 chunkStartParagraph = 0\<rparr>;
          st = foldl (processParagraph pg chunkSize overlap) st0 paragraphs;
          stf = emitChunk (pageNumber pg) (cur_paragraphNumber st) st
      in (allChunks stf, globalChunkIndex stf))"

definition splitIntoChunksWithMetadata :: "page list \<Rightarrow> int \<Rightarrow> int \<Rightarrow> chunk list" where
  "splitIntoChunksWithMetadata pages chunkSize overlap =
     fst (foldl (processPage chunkSize overlap) ([], 0) pages)"

text \<open>The call with the default parameters \<open>chunkSize = 1000\<close>, \<open>overlap = 200\<close>.\<close>

definition splitIntoChunksDefault :: "page list \<Rightarrow> chunk list" where
  "splitIntoChunksDefault pages = splitIntoChunksWithMetadata pages 1000 200"

section \<open>Errors and numbers\<close>

text \<open>A thrown JavaScript \<open>Error\<close>, with its message. A function that may throw returns
  \<open>error + 'a\<close>, with \<open>Inl\<close> for the throw.\<close>

datatype error = Error string

fun message :: "error \<Rightarrow> string" where
  "message (Error m) = m"

text \<open>
  The first throw ends a \<open>map\<close> whose callback throws, and the first rejection rejects a
  \<open>Promise.all\<close>; the model takes the leftmost failure.
\<close>

fun allOrFirstError :: "(error + 'a) list \<Rightarrow> error + 'a list" where
  "allOrFirstError [] = Inr []"
| "allOrFirstError (r # rs) =
     (case r of
        Inl e \<Rightarrow> Inl e
      | Inr v \<Rightarrow> (case allOrFirstError rs of Inl e \<Rightarrow> Inl e | Inr vs \<Rightarrow> Inr (v # vs)))"

text \<open>
  JavaScript numbers: the finite ones are modelled as exact reals (no rounding, no
  overflow), next to the three values that a division by zero produces. What the theorems
  on searches and zero vectors use holds for doubles as well: the products and sums of a
  zero vector are exactly \<open>0\<close>, \<open>0 / 0\<close> is \<open>NaN\<close>, and the difference of two scores
  other than \<open>NaN\<close> has the sign of their comparison. Where the rounding itself is the
  question (the similarity of a vector with itself), the arithmetic of doubles is modelled
  by \<open>roundToDouble\<close> below.
\<close>

datatype jsnum = Num real | PosInfinity | NegInfinity | NaN

text \<open>\<open>x / y\<close> on finite operands. The divisor of \<open>cosineSimilarity\<close> is a product of square
  roots, so a zero divisor is \<open>+0\<close>.\<close>

definition jsDiv :: "real \<Rightarrow> real \<Rightarrow> jsnum" where
  "jsDiv x y =
     (if y = 0 then (if x = 0 then NaN else if 0 < x then PosInfinity else NegInfinity)
      else Num (x / y))"

fun jsSub :: "jsnum \<Rightarrow> jsnum \<Rightarrow> jsnum" where
  "jsSub (Num a) (Num b) = Num (a - b)"
| "jsSub NaN _ = NaN"
| "jsSub _ NaN = NaN"
| "jsSub PosInfinity PosInfinity = NaN"
| "jsSub NegInfinity NegInfinity = NaN"
| "jsSub PosInfinity _ = PosInfinity"
| "jsSub NegInfinity _ = NegInfinity"
| "jsSub (Num a) PosInfinity = NegInfinity"
| "jsSub (Num a) NegInfinity = PosInfinity"

text \<open>\<open>v > 0\<close>, false for \<open>NaN\<close>.\<close>

fun jsPositive :: "jsnum \<Rightarrow> bool" where
  "jsPositive (Num r) = (0 < r)"
| "jsPositive PosInfinity = True"
| "jsPositive NegInfinity = False"
| "jsPositive NaN = False"


text \<open>
  \<open>Array.prototype.sort(cmp)\<close> is stable, and \<open>cmp(x, y) > 0\<close> asks for \<open>x\<close> after \<open>y\<close>; a
  \<open>NaN\<close> from the comparator counts as \<open>0\<close>. Insertion from the right gives that order for
  a consistent comparator. For an inconsistent one (a \<open>NaN\<close> score) the order is left to
  the engine, and the model fixes this one.
\<close>

fun insertSorted :: "('a \<Rightarrow> 'a \<Rightarrow> jsnum) \<Rightarrow> 'a \<Rightarrow> 'a list \<Rightarrow> 'a list" where
  "insertSorted cmp x [] = [x]"
| "insertSorted cmp x (y # ys) =
     (if jsPositive (cmp x y) then y # insertSorted cmp x ys else x # y # ys)"

definition jsSort :: "('a \<Rightarrow> 'a \<Rightarrow> jsnum) \<Rightarrow> 'a list \<Rightarrow> 'a list" where
  "jsSort cmp xs = foldr (insertSorted cmp) xs []"


section \<open>Embeddings (backend/utils/embeddings.js)\<close>

type_synonym embeddingVector = "real list"

text \<open>The remote call \<open>embeddingModel.embedContent(text)\<close>, then \<open>result.embedding.values\<close>:
  a parameter of the model, which returns the vector or throws.\<close>

type_synonym embeddingService = "string \<Rightarrow> error + embeddingVector"

definition batchSize :: nat where
  "batchSize = 100"

text \<open>The \<open>for\<close> loop of \<open>generateEmbeddings\<close>, one batch of \<open>batchSize\<close> texts per round.\<close>

function embedBatches ::
  "embeddingService \<Rightarrow> string list \<Rightarrow> nat \<Rightarrow> embeddingVector list \<Rightarrow> error + embeddingVector list" where
  "embedBatches embedContent texts i allEmbeddings =
     (if i < length texts then
        (case allOrFirstError (map embedContent (slice texts (int i) (int (i + batchSize)))) of
           Inl e \<Rightarrow> Inl e
         | Inr batchEmbeddings \<Rightarrow>
             embedBatches embedContent texts (i + batchSize) (allEmbeddings @ batchEmbeddings))
      else Inr allEmbeddings)"
  by pat_completeness auto
termination
  by (relation "measure (\<lambda>(e, texts, i, a). length texts - i)") (auto simp: batchSize_def)

text \<open>The message of the \<open>TypeError\<close> that reading \<open>.length\<close> of \<open>undefined\<close> throws.\<close>

definition undefinedLengthMessage :: string where
  "undefinedLengthMessage =
     ''Cannot read properties of undefined (reading '' @ [CHR 0x27] @ ''length'' @ [CHR 0x27] @ '')''"

text \<open>
  After the loop the function logs \<open>allEmbeddings[0].length\<close>, inside the \<open>try\<close>: with no
  embedding at all, \<open>allEmbeddings[0]\<close> is \<open>undefined\<close> and the read throws. The \<open>catch\<close>
  rethrows every error with a prefixed message.
\<close>

definition generateEmbeddings :: "embeddingService \<Rightarrow> string list \<Rightarrow> error + embeddingVector list" where
  "generateEmbeddings embedContent texts =
     (case (case embedBatches embedContent texts 0 [] of
              Inl e \<Rightarrow> Inl e
            | Inr allEmbeddings \<Rightarrow>
                (case allEmbeddings of
                   [] \<Rightarrow> Inl (Error undefinedLengthMessage)
                 | first # _ \<Rightarrow> Inr allEmbeddings)) of
        Inl e \<Rightarrow> Inl (Error (''Failed to generate embeddings: '' @ message e))
      | Inr allEmbeddings \<Rightarrow> Inr allEmbeddings)"

definition generateSingleEmbedding :: "embeddingService \<Rightarrow> string \<Rightarrow> error + embeddingVector" where
  "generateSingleEmbedding embedContent t =
     (case embedContent t of
        Inl e \<Rightarrow> Inl (Error (''Failed to generate embedding: '' @ message e))
      | Inr values \<Rightarrow> Inr values)"

text \<open>
  \<open>cosineSimilarity\<close>: the only \<open>throw\<close> is the length check. The loop runs over the
  indices of both vectors; the triple is \<open>(dotProduct, normA, normB)\<close>.
\<close>

definition cosineSimilarity :: "embeddingVector \<Rightarrow> embeddingVector \<Rightarrow> error + jsnum" where
  "cosineSimilarity vecA vecB =
     (if length vecA \<noteq> length vecB then Inl (Error ''Vectors must have same length'')
      else
        (let (dotProduct, normA, normB) =
               foldl (\<lambda>(d, na, nb) (a, b). (d + a * b, na + a * a, nb + b * b))
                 (0, 0, 0) (zip vecA vecB)
         in Inr (jsDiv dotProduct (sqrt normA * sqrt normB))))"

subsection \<open>The similarity in double arithmetic\<close>

text \<open>
  For the similarity of a vector with itself the rounding of every operation matters, so
  \<open>cosineSimilarity\<close> is modelled a second time with the arithmetic of IEEE 754 binary64
  numbers, rounding to nearest, ties to even. A finite double is the real number it
  denotes; the sign of a zero is not represented (it changes no result below: the divisor
  is a product of square roots, and \<open>-0\<close> and \<open>+0\<close> are the same dividend).

  \<open>roundHalfEven\<close> rounds a real to the nearest integer, a tie to the even one.
\<close>

definition roundHalfEven :: "real \<Rightarrow> int" where
  "roundHalfEven r =
     (let f = \<lfloor>r\<rfloor>; d = r - of_int f
      in if d < 1 / 2 then f else if 1 / 2 < d then f + 1 else if even f then f else f + 1)"

text \<open>
  The binary exponent of \<open>x\<close>, not below that of the smallest normal number, and the
  distance between neighbouring doubles at that exponent (53 bits of precision;
  \<open>2 powr (- 1074)\<close> for the subnormal numbers).
\<close>

definition doubleExponent :: "real \<Rightarrow> int" where
  "doubleExponent x = max \<lfloor>log 2 \<bar>x\<bar>\<rfloor> (- 1022)"

definition doubleQuantum :: "real \<Rightarrow> real" where
  "doubleQuantum x = 2 powr (of_int (doubleExponent x) - 52)"

text \<open>
  The double nearest to the real \<open>x\<close>: the nearest multiple of the quantum, and an infinity
  when that multiple reaches \<open>2 ^ 1024\<close> (the largest double is \<open>2 ^ 1024 - 2 ^ 971\<close>).
\<close>

definition roundToDouble :: "real \<Rightarrow> jsnum" where
  "roundToDouble x =
     (if x = 0 then Num 0
      else
        (let y = of_int (roundHalfEven (x / doubleQuantum x)) * doubleQuantum x
         in if 2 ^ 1024 \<le> \<bar>y\<bar> then (if 0 < y then PosInfinity else NegInfinity)
            else Num y))"

text \<open>The operators \<open>*\<close>, \<open>+\<close>, \<open>/\<close> and \<open>Math.sqrt\<close> on doubles: the exact result of finite
  operands, rounded; the usual results for an infinity or a \<open>NaN\<close>.\<close>

definition jsSign :: "jsnum \<Rightarrow> int" where
  "jsSign x =
     (case x of
        Num a \<Rightarrow> (if 0 < a then 1 else if a < 0 then - 1 else 0)
      | PosInfinity \<Rightarrow> 1
      | NegInfinity \<Rightarrow> - 1
      | NaN \<Rightarrow> 0)"

definition doubleMul :: "jsnum \<Rightarrow> jsnum \<Rightarrow> jsnum" where
  "doubleMul x y =
     (case (x, y) of
        (Num a, Num b) \<Rightarrow> roundToDouble (a * b)
      | _ \<Rightarrow>
          (if x = NaN \<or> y = NaN \<or> jsSign x * jsSign y = 0 then NaN
           else if 0 < jsSign x * jsSign y then PosInfinity else NegInfinity))"

fun doubleAdd :: "jsnum \<Rightarrow> jsnum \<Rightarrow> jsnum" where
  "doubleAdd (Num a) (Num b) = roundToDouble (a + b)"
| "doubleAdd NaN _ = NaN"
| "doubleAdd _ NaN = NaN"
| "doubleAdd PosInfinity NegInfinity = NaN"
| "doubleAdd NegInfinity PosInfinity = NaN"
| "doubleAdd PosInfinity _ = PosInfinity"
| "doubleAdd _ PosInfinity = PosInfinity"
| "doubleAdd NegInfinity _ = NegInfinity"
| "doubleAdd _ NegInfinity = NegInfinity"

fun doubleSqrt :: "jsnum \<Rightarrow> jsnum" where
  "doubleSqrt (Num a) = (if a < 0 then NaN else roundToDouble (sqrt a))"
| "doubleSqrt PosInfinity = PosInfinity"
| "doubleSqrt NegInfinity = NaN"
| "doubleSqrt NaN = NaN"

fun doubleDiv :: "jsnum \<Rightarrow> jsnum \<Rightarrow> jsnum" where
  "doubleDiv (Num a) (Num b) =
     (if b = 0 then (if a = 0 then NaN else if 0 < a then PosInfinity else NegInfinity)
      else roundToDouble (a / b))"
| "doubleDiv NaN _ = NaN"
| "doubleDiv _ NaN = NaN"
| "doubleDiv (Num a) _ = Num 0"
| "doubleDiv PosInfinity (Num b) = (if 0 \<le> b then PosInfinity else NegInfinity)"
| "doubleDiv NegInfinity (Num b) = (if 0 \<le> b then NegInfinity else PosInfinity)"
| "doubleDiv _ _ = NaN"

text \<open>One round of the loop of \<open>cosineSimilarity\<close> on \<open>(dotProduct, normA, normB)\<close>, for the
  entries \<open>vecA[i]\<close> and \<open>vecB[i]\<close>, and the function itself.\<close>

definition accumulate :: "jsnum \<times> jsnum \<times> jsnum \<Rightarrow> real \<times> real \<Rightarrow> jsnum \<times> jsnum \<times> jsnum" where
  "accumulate acc ab =
     (case acc of (dotProduct, normA, normB) \<Rightarrow>
        (case ab of (a, b) \<Rightarrow>
           (doubleAdd dotProduct (doubleMul (Num a) (Num b)),
            doubleAdd normA (doubleMul (Num a) (Num a)),
            doubleAdd normB (doubleMul (Num b) (Num b)))))"

definition cosineSimilarityDouble :: "embeddingVector \<Rightarrow> embeddingVector \<Rightarrow> error + jsnum" where
  "cosineSimilarityDouble vecA vecB =
     (if length vecA \<noteq> length vecB then Inl (Error ''Vectors must have same length'')
      else
        (case foldl accumulate (Num 0, Num 0, Num 0) (zip vecA vecB) of
           (dotProduct, normA, normB) \<Rightarrow>
             Inr (doubleDiv dotProduct (doubleMul (doubleSqrt normA) (doubleSqrt normB)))))"

section \<open>The in-memory vector store (class VectorStore)\<close>

record enrichedChunk = chunk +
  embedding :: embeddingVector

record searchResult = chunk +
  similarity :: jsnum

text \<open>\<open>this.store\<close>, a \<open>Map\<close> from document ids to arrays of enriched chunks.\<close>

type_synonym vectorStore = "string \<rightharpoonup> enrichedChunk list"

definition emptyStore :: vectorStore where
  "emptyStore = Map.empty"

definition enrichChunk :: "chunk \<Rightarrow> embeddingVector \<Rightarrow> enrichedChunk" where
  "enrichChunk c e =
     \<lparr>chunk_text = chunk_text c, chunkIndex = chunkIndex c,
      metadata = \<lparr>page = page (metadata c),
        paragraphNumber = paragraphNumber (metadata c),
        paragraphRange = paragraphRange (metadata c),
        startChar = startChar (metadata c),
        endChar = endChar (metadata c),
        chunkLength = chunkLength (metadata c)\<rparr>,
      embedding = e\<rparr>"


definition scoreChunk :: "embeddingVector \<Rightarrow> enrichedChunk \<Rightarrow> error + searchResult" where
  "scoreChunk queryEmbedding c =
     (case cosineSimilarity queryEmbedding (embedding c) of
        Inl e \<Rightarrow> Inl e
      | Inr s \<Rightarrow> Inr \<lparr>chunk_text = chunk_text c, chunkIndex = chunkIndex c,
                     metadata = metadata c, similarity = s\<rparr>)"

definition search ::
  "vectorStore \<Rightarrow> string \<Rightarrow> embeddingVector \<Rightarrow> int \<Rightarrow> error + searchResult list" where
  "search store d queryEmbedding topK =
     (case store d of
        None \<Rightarrow> Inl (Error (''Document '' @ d @ '' not found in vector store''))
      | Some chunks \<Rightarrow>
          (case allOrFirstError (map (scoreChunk queryEmbedding) chunks) of
             Inl e \<Rightarrow> Inl e
           | Inr results \<Rightarrow>
               Inr (slice (jsSort (\<lambda>a b. jsSub (similarity b) (similarity a)) results) 0 topK)))"

text \<open>The call with the default \<open>topK = 5\<close>.\<close>

definition searchDefault :: "vectorStore \<Rightarrow> string \<Rightarrow> embeddingVector \<Rightarrow> error + searchResult list" where
  "searchDefault store d queryEmbedding = search store d queryEmbedding 5"

text \<open>\<open>deleteDocument\<close> returns what \<open>Map.prototype.delete\<close> returns, and the new store.\<close>

definition deleteDocument :: "vectorStore \<Rightarrow> string \<Rightarrow> bool \<times> vectorStore" where
  "deleteDocument store d = (store d \<noteq> None, store(d := None))"

section \<open>The server (backend/server.js)\<close>

subsection \<open>The MongoDB collections\<close>

text \<open>A record of the \<open>documents\<close> collection; \<open>doc_id\<close> is its \<open>_id\<close>.\<close>

record documentRecord =
  doc_id :: string
  filename :: string
  textLength :: int
  chunkCount :: int
  totalPages :: int
  uploadedAt :: int
  doc_status :: string

text \<open>A record of the \<open>vectors\<close> collection, as the upload route writes it.\<close>

record vectorDocument = enrichedChunk +
  docId :: string
  createdAt :: int

text \<open>Both collections, each in its natural (insertion) order.\<close>

record database =
  documents :: "documentRecord list"
  vectors :: "vectorDocument list"

text \<open>
  A retrieved chunk \<open>{text, metadata, score}\<close>. The handler reads \<open>chunk.metadata?.page\<close>, so
  the metadata may be absent in what the vector index returns.
\<close>

record scoredChunk =
  s_text :: string
  s_metadata :: "metadata option"
  score :: jsnum

subsection \<open>The brute-force fallback of the ask route\<close>

definition topK :: int where
  "topK = 3"

definition scoreVector :: "embeddingVector \<Rightarrow> vectorDocument \<Rightarrow> error + scoredChunk" where
  "scoreVector questionEmbedding v =
     (case cosineSimilarity questionEmbedding (embedding v) of
        Inl e \<Rightarrow> Inl e
      | Inr s \<Rightarrow> Inr \<lparr>s_text = chunk_text v, s_metadata = Some (metadata v), score = s\<rparr>)"

text \<open>\<open>vectorCollection.find({ docId }).limit(50).toArray()\<close>, then score, sort and slice.\<close>

definition fallbackSearch ::
  "vectorDocument list \<Rightarrow> string \<Rightarrow> embeddingVector \<Rightarrow> error + scoredChunk list" where
  "fallbackSearch vectorCollection d questionEmbedding =
     (let allChunks = take 50 (filter (\<lambda>v. docId v = d) vectorCollection) in
      case allOrFirstError (map (scoreVector questionEmbedding) allChunks) of
        Inl e \<Rightarrow> Inl e
      | Inr chunksWithScores \<Rightarrow>
          Inr (slice (jsSort (\<lambda>a b. jsSub (score b) (score a)) chunksWithScores) 0 topK))"

subsection \<open>Responses\<close>

text \<open>A value that is a number or a string, as \<open>chunk.metadata?.page || "N/A"\<close> is.\<close>

datatype numberOrString = Number int | String string

record source =
  sourceNumber :: int
  src_page :: numberOrString
  src_paragraphNumber :: numberOrString
  src_text :: string
  src_similarity :: jsnum
  src_startChar :: int
  src_endChar :: int

text \<open>The fields that only the generated answer carries.\<close>

record answerDetails =
  model :: string
  promptLength :: int
  chunksUsed :: int
  version :: string
  timestamp :: int

datatype body =
  ErrorJson string
  | MessageJson string
  | AnswerJson (answer: string) (question: string) (answerDocId: string)
      (sources: "source list") (details: "answerDetails option")

text \<open>\<open>res.status(n).json(b)\<close>; \<open>res.json(b)\<close> alone has status 200.\<close>

datatype response = Response (statusCode: int) (json: body)

subsection \<open>Number to string\<close>

function natToString :: "nat \<Rightarrow> string" where
  "natToString n =
     (if n < 10 then [char_of (48 + n)]
      else natToString (n div 10) @ [char_of (48 + n mod 10)])"
  by pat_completeness auto
termination
  by (relation "measure (\<lambda>n. n)") auto

definition intToString :: "int \<Rightarrow> string" where
  "intToString i = (if i < 0 then ''-'' @ natToString (nat (- i)) else natToString (nat i))"

subsection \<open>The ask route\<close>

text \<open>
  What the handler reaches outside the process: the embedding service, the
  \<open>$vectorSearch\<close> aggregation of the database (given the document id and the question's
  embedding, it returns at most \<open>topK\<close> scored chunks or throws), the chat model
  (\<open>generateContent\<close> with \<open>result.response.text()\<close>), and the clock.
\<close>

record collaborators =
  embedContent :: embeddingService
  vectorSearch :: "string \<Rightarrow> embeddingVector \<Rightarrow> error + scoredChunk list"
  generateContent :: "string \<Rightarrow> error + string"
  now :: int

definition noInformationAnswer :: string where
  "noInformationAnswer =
     ''No relevant information found. Please check if:'' @ [newline] @
     ''1. Vector search index is created in MongoDB Atlas'' @ [newline] @
     ''2. The document was uploaded successfully'' @ [newline] @
     ''3. Your question relates to the document content''"

text \<open>\<open>chunk.metadata?.f || alt\<close> for a numeric field \<open>f\<close>: \<open>0\<close> is falsy.\<close>

definition metadataField :: "(metadata \<Rightarrow> int) \<Rightarrow> metadata option \<Rightarrow> int option" where
  "metadataField f md =
     (case md of None \<Rightarrow> None | Some m \<Rightarrow> (if f m = 0 then None else Some (f m)))"

definition orString :: "int option \<Rightarrow> string \<Rightarrow> string" where
  "orString v alt = (case v of None \<Rightarrow> alt | Some n \<Rightarrow> intToString n)"

definition orValue :: "int option \<Rightarrow> string \<Rightarrow> numberOrString" where
  "orValue v alt = (case v of None \<Rightarrow> String alt | Some n \<Rightarrow> Number n)"

definition orZero :: "int option \<Rightarrow> int" where
  "orZero v = (case v of None \<Rightarrow> 0 | Some n \<Rightarrow> n)"

text \<open>\<open>chunk.score || 0\<close>: \<open>NaN\<close> is falsy.\<close>

definition scoreOrZero :: "jsnum \<Rightarrow> jsnum" where
  "scoreOrZero s = (if s = NaN then Num 0 else s)"

definition excerpt :: "scoredChunk \<times> nat \<Rightarrow> string" where
  "excerpt ci =
     (let chunk = fst ci; idx = snd ci;
          pageStr = orString (metadataField page (s_metadata chunk)) ''Unknown'';
          para = orString (metadataField paragraphNumber (s_metadata chunk)) ''Unknown'';
          txt = (if length (s_text chunk) > 800 then take 800 (s_text chunk) @ ''...''
                 else s_text chunk)
      in ''[Source '' @ intToString (int idx + 1) @ '' - Page '' @ pageStr @ '', Para '' @ para
           @ '']'' @ [newline] @ txt)"

fun joinWith :: "string \<Rightarrow> string list \<Rightarrow> string" where
  "joinWith sep [] = []"
| "joinWith sep [x] = x"
| "joinWith sep (x # y # ys) = x @ sep @ joinWith sep (y # ys)"

definition buildContext :: "scoredChunk list \<Rightarrow> string" where
  "buildContext relevantChunks =
     joinWith '' '' (map excerpt (zip relevantChunks [0..<length relevantChunks]))"

definition buildPrompt :: "string \<Rightarrow> string \<Rightarrow> string" where
  "buildPrompt context q =
     ''Based on these document excerpts, answer the question.'' @ [newline] @
     ''Document Excerpts:'' @ [newline] @ context @ [newline, newline] @
     ''Question: '' @ q @ [newline, newline] @
     ''Instructions:'' @ [newline] @
     ''- Answer ONLY using information from the excerpts above'' @ [newline] @
     ''- Cite sources like [Source 1 - Page 3, Para 2]'' @ [newline] @
     ''- If the answer is not in the excerpts, say so clearly'' @ [newline] @
     ''- Be concise and specific'' @ [newline, newline] @
     ''Answer:''"

definition toSource :: "scoredChunk \<times> nat \<Rightarrow> source" where
  "toSource ci =
     (let chunk = fst ci; idx = snd ci in
      \<lparr>sourceNumber = int idx + 1,
       src_page = orValue (metadataField page (s_metadata chunk)) ''N/A'',
       src_paragraphNumber = orValue (metadataField paragraphNumber (s_metadata chunk)) ''N/A'',
       src_text = take 300 (s_text chunk) @ ''...'',
       src_similarity = scoreOrZero (score chunk),
       src_startChar = orZero (metadataField startChar (s_metadata chunk)),
       src_endChar = orZero (metadataField endChar (s_metadata chunk))\<rparr>)"

text \<open>The \<open>catch\<close> of the route: status 500 and the message of the error.\<close>

definition failedToAnswer :: "error \<Rightarrow> response" where
  "failedToAnswer e = Response 500 (ErrorJson (''Failed to answer: '' @ message e))"

text \<open>
  Retrieval: the vector search first; when it throws, the inner \<open>catch\<close> runs the fallback,
  whose own throw goes to the outer \<open>catch\<close>.
\<close>

definition retrieveChunks ::
  "collaborators \<Rightarrow> database \<Rightarrow> string \<Rightarrow> embeddingVector \<Rightarrow> error + scoredChunk list" where
  "retrieveChunks env db d questionEmbedding =
     (case vectorSearch env d questionEmbedding of
        Inr relevantChunks \<Rightarrow> Inr relevantChunks
      | Inl vectorSearchError \<Rightarrow> fallbackSearch (vectors db) d questionEmbedding)"

text \<open>
  The handler of \<open>POST /api/ask\<close>. A missing body field is \<open>None\<close>, and the empty string is
  falsy as well. The result is the response, with the list of the prompts that were passed
  to \<open>chatModel.generateContent\<close>, in call order.
\<close>

definition askHandler ::
  "collaborators \<Rightarrow> database \<Rightarrow> string option \<Rightarrow> string option \<Rightarrow> response \<times> string list" where
  "askHandler env db reqDocId reqQuestion =
     (case (reqDocId, reqQuestion) of
        (Some d, Some q) \<Rightarrow>
          (if d = [] \<or> q = [] then (Response 400 (ErrorJson ''Missing docId or question''), [])
           else
             (case find (\<lambda>r. doc_id r = d) (documents db) of
                None \<Rightarrow> (Response 404 (ErrorJson ''Document not found''), [])
              | Some document \<Rightarrow>
                  (case generateSingleEmbedding (embedContent env) q of
                     Inl e \<Rightarrow> (failedToAnswer e, [])
                   | Inr questionEmbedding \<Rightarrow>
                       (case retrieveChunks env db d questionEmbedding of
                          Inl e \<Rightarrow> (failedToAnswer e, [])
                        | Inr relevantChunks \<Rightarrow>
                            (if length relevantChunks = 0 then
                               (Response 200 (AnswerJson noInformationAnswer q d [] None), [])
                             else
                               (let prompt = buildPrompt (buildContext relevantChunks) q in
                                case generateContent env prompt of
                                  Inl e \<Rightarrow> (failedToAnswer e, [prompt])
                                | Inr answerText \<Rightarrow>
                                    (Response 200
                                       (AnswerJson answerText q d
                                          (map toSource
                                             (zip relevantChunks [0..<length relevantChunks]))
                                          (Some \<lparr>model = ''gemini-3-pro-preview'',
                                             promptLength = int (length prompt),
                                             chunksUsed = int (length relevantChunks),
                                             version = ''6.0 - Optimized'',
                                             timestamp = now env\<rparr>)),
                                     [prompt])))))))
      | _ \<Rightarrow> (Response 400 (ErrorJson ''Missing docId or question''), []))"

subsection \<open>The delete route\<close>

text \<open>\<open>deleteOne\<close> removes the first record that matches.\<close>

fun deleteOne :: "('a \<Rightarrow> bool) \<Rightarrow> 'a list \<Rightarrow> 'a list" where
  "deleteOne P [] = []"
| "deleteOne P (x # xs) = (if P x then xs else x # deleteOne P xs)"

text \<open>
  The handler of \<open>DELETE /api/document/:docId\<close>: \<open>deleteMany({ docId })\<close> on the vectors,
  \<open>deleteOne({ _id: docId })\<close> on the documents.
\<close>

definition deleteRoute :: "database \<Rightarrow> string \<Rightarrow> response \<times> database" where
  "deleteRoute db d =
     (Response 200 (MessageJson ''Document deleted successfully''),
      db\<lparr>vectors := filter (\<lambda>v. docId v \<noteq> d) (vectors db),
         documents := deleteOne (\<lambda>r. doc_id r = d) (documents db)\<rparr>)"

section \<open>Auxiliary definitions for the proofs\<close>

text \<open>The chunks pushed so far carry the indices \<open>0, 1, 2, ...\<close> and the counter is their
  number.\<close>

definition indexed :: "chunk list \<Rightarrow> int \<Rightarrow> bool" where
  "indexed chunks next \<longleftrightarrow>
     map chunkIndex chunks = map int [0..<length chunks] \<and> next = int (length chunks)"

text \<open>A page of ten characters: two paragraphs of four, two newlines between them.\<close>

definition twoParagraphPage :: page where
  "twoParagraphPage =
     \<lparr>pageNumber = 1, page_text = ''aaaa'' @ [newline, newline] @ ''bbbb'',
      page_startChar = 0, page_endChar = 10\<rparr>"

text \<open>A page of 2000 characters, the size of the pages that the upload route cuts: a
  paragraph of 201 characters, two newlines, a paragraph of 1797 characters.\<close>

definition fullPage :: page where
  "fullPage =
     \<lparr>pageNumber = 1,
      page_text = replicate 201 (CHR ''a'') @ paragraphSeparator @ replicate 1797 (CHR ''b''),
      page_startChar = 0, page_endChar = 2000\<rparr>"

text \<open>A page whose only paragraph starts with a space.\<close>

definition leadingSpacePage :: page where
  "leadingSpacePage =
     \<lparr>pageNumber = 1, page_text = '' a'', page_startChar = 0, page_endChar = 2\<rparr>"

text \<open>Inputs for the concrete instances below: chunks, a store with two documents, a store
  that holds a zero vector, a vector collection, a database and a set of collaborators whose
  vector search always fails.\<close>

definition exampleChunk :: "int \<Rightarrow> chunk" where
  "exampleChunk i =
     \<lparr>chunk_text = ''chunk'', chunkIndex = i,
      metadata = \<lparr>page = i + 1, paragraphNumber = 1, paragraphRange = SinglePara 1,
        startChar = 0, endChar = 5, chunkLength = 5\<rparr>\<rparr>"

definition exampleStore :: vectorStore where
  "exampleStore =
     [''doc'' \<mapsto> [enrichChunk (exampleChunk 0) [0, 1], enrichChunk (exampleChunk 1) [1, 0],
                   enrichChunk (exampleChunk 2) [- 1, 0]],
      ''other'' \<mapsto> [enrichChunk (exampleChunk 0) [1, 0]]]"


definition exampleVector :: "string \<Rightarrow> int \<Rightarrow> embeddingVector \<Rightarrow> vectorDocument" where
  "exampleVector d i e =
     \<lparr>chunk_text = ''chunk'', chunkIndex = i,
      metadata = metadata (exampleChunk i), embedding = e, docId = d, createdAt = 0\<rparr>"

definition exampleVectors :: "vectorDocument list" where
  "exampleVectors =
     [exampleVector ''doc'' 0 [0, 1], exampleVector ''other'' 0 [1, 0],
      exampleVector ''doc'' 1 [1, 0], exampleVector ''doc'' 2 [- 1, 0],
      exampleVector ''doc'' 3 [1, 0]]"


definition exampleDocument :: "string \<Rightarrow> documentRecord" where
  "exampleDocument d =
     \<lparr>doc_id = d, filename = ''file.pdf'', textLength = 5, chunkCount = 1, totalPages = 1,
      uploadedAt = 0, doc_status = ''processed''\<rparr>"

definition exampleDatabase :: database where
  "exampleDatabase =
     \<lparr>documents = [exampleDocument ''doc'', exampleDocument ''empty''],
      vectors = exampleVectors\<rparr>"

definition exampleCollaborators :: collaborators where
  "exampleCollaborators =
     \<lparr>embedContent = (\<lambda>t. Inr [1, 0]),
      vectorSearch = (\<lambda>d q. Inl (Error ''index not found'')),
      generateContent = (\<lambda>prompt. Inr ''generated''),
      now = 0\<rparr>"

text \<open>
  The values of \<open>currentChunk\<close> at the pushes of one page, in the order of the pushes: the
  push inside the loop happens when the buffer and the paragraph together exceed
  \<open>chunkSize\<close> and the trimmed buffer is not empty, the push after the loop when the trimmed
  buffer is not empty. \<open>chunkBuffers\<close> lists them for all pages of a call.
\<close>

fun buffersOfParagraphs ::
  "page \<Rightarrow> int \<Rightarrow> int \<Rightarrow> chunkerState \<Rightarrow> string list \<Rightarrow> string list" where
  "buffersOfParagraphs pg chunkSize overlap st [] =
     (if length (trim (currentChunk st)) > 0 then [currentChunk st] else [])"
| "buffersOfParagraphs pg chunkSize overlap st (paragraph # rest) =
     (if int (length (currentChunk st)) + int (length paragraph) > chunkSize
         \<and> length (trim (currentChunk st)) > 0
      then [currentChunk st] else []) @
     buffersOfParagraphs pg chunkSize overlap
       (processParagraph pg chunkSize overlap st paragraph) rest"

fun chunkBuffersFrom :: "int \<Rightarrow> int \<Rightarrow> chunk list \<times> int \<Rightarrow> page list \<Rightarrow> string list" where
  "chunkBuffersFrom chunkSize overlap acc [] = []"
| "chunkBuffersFrom chunkSize overlap acc (pg # pages) =
     buffersOfParagraphs pg chunkSize overlap
       \<lparr>allChunks = fst acc, globalChunkIndex = snd acc, currentChunk = [],
        chunkStartChar = page_startChar pg, cur_paragraphNumber = 0,
        chunkStartParagraph = 0\<rparr>
       (filter (\<lambda>p. length (trim p) > 0) (splitParagraphs (page_text pg))) @
     chunkBuffersFrom chunkSize overlap (processPage chunkSize overlap acc pg) pages"

definition chunkBuffers :: "page list \<Rightarrow> int \<Rightarrow> int \<Rightarrow> string list" where
  "chunkBuffers pages chunkSize overlap = chunkBuffersFrom chunkSize overlap ([], 0) pages"

text \<open>The value of \<open>normA\<close> after the loop of \<open>cosineSimilarity\<close>, in double arithmetic: the
  rounded sum of the rounded squares of the entries.\<close>

definition squaredNorm :: "embeddingVector \<Rightarrow> jsnum" where
  "squaredNorm v = foldl (\<lambda>s x. doubleAdd s (doubleMul (Num x) (Num x))) (Num 0) v"

text \<open>A sum of squares is a finite number that is not negative, or \<open>Infinity\<close>.\<close>

fun nonNegative :: "jsnum \<Rightarrow> bool" where
  "nonNegative (Num y) = (0 \<le> y)"
| "nonNegative PosInfinity = True"
| "nonNegative NegInfinity = False"
| "nonNegative NaN = False"

section \<open>Properties of the chunker\<close>

subsection \<open>Every chunk comes from one push\<close>

lemma emitChunk_indexed:
  "indexed (allChunks st) (globalChunkIndex st) \<Longrightarrow>
   indexed (allChunks (emitChunk pn lp st)) (globalChunkIndex (emitChunk pn lp st))"
  by (simp add: indexed_def emitChunk_def makeChunk_def)

lemma processParagraph_all:
  assumes new: "\<And>pn lp s. 0 < length (trim (currentChunk s)) \<Longrightarrow> P (makeChunk pn lp s)"
    and old: "\<forall>c\<in>set (allChunks st). P c"
  shows "\<forall>c\<in>set (allChunks (processParagraph pg cs ov st p)). P c"
proof -
  have emit: "\<And>pn lp s. \<forall>c\<in>set (allChunks s). P c \<Longrightarrow> \<forall>c\<in>set (allChunks (emitChunk pn lp s)). P c"
    using new by (simp add: emitChunk_def)
  let ?st = "st\<lparr>cur_paragraphNumber := cur_paragraphNumber st + 1\<rparr>"
  have "\<forall>c\<in>set (allChunks (emitChunk (pageNumber pg) (cur_paragraphNumber ?st - 1) ?st)). P c"
    using old by (intro emit) simp
  then show ?thesis
    using old unfolding processParagraph_def Let_def by simp
qed

lemma processParagraph_indexed:
  assumes "indexed (allChunks st) (globalChunkIndex st)"
  shows "indexed (allChunks (processParagraph pg cs ov st p))
           (globalChunkIndex (processParagraph pg cs ov st p))"
proof -
  let ?st = "st\<lparr>cur_paragraphNumber := cur_paragraphNumber st + 1\<rparr>"
  have "indexed (allChunks ?st) (globalChunkIndex ?st)"
    using assms by simp
  then have "indexed (allChunks (emitChunk (pageNumber pg) (cur_paragraphNumber ?st - 1) ?st))
     (globalChunkIndex (emitChunk (pageNumber pg) (cur_paragraphNumber ?st - 1) ?st))"
    by (rule emitChunk_indexed)
  then show ?thesis
    using assms unfolding processParagraph_def Let_def by simp
qed

lemma foldl_processParagraph_all:
  assumes new: "\<And>pn lp s. 0 < length (trim (currentChunk s)) \<Longrightarrow> P (makeChunk pn lp s)"
  shows "\<forall>c\<in>set (allChunks st). P c \<Longrightarrow>
     \<forall>c\<in>set (allChunks (foldl (processParagraph pg cs ov) st ps)). P c"
proof (induction ps arbitrary: st)
  case Nil
  then show ?case by simp
next
  case (Cons p ps)
  have "\<forall>c\<in>set (allChunks (processParagraph pg cs ov st p)). P c"
    using processParagraph_all [where P = P, OF new Cons.prems] by blast
  then show ?case using Cons.IH by simp
qed

lemma foldl_processParagraph_indexed:
  "indexed (allChunks st) (globalChunkIndex st) \<Longrightarrow>
   indexed (allChunks (foldl (processParagraph pg cs ov) st ps))
     (globalChunkIndex (foldl (processParagraph pg cs ov) st ps))"
  by (induction ps arbitrary: st) (simp_all add: processParagraph_indexed)

lemma processPage_all:
  assumes new: "\<And>pn lp s. 0 < length (trim (currentChunk s)) \<Longrightarrow> P (makeChunk pn lp s)"
    and old: "\<forall>c\<in>set (fst acc). P c"
  shows "\<forall>c\<in>set (fst (processPage cs ov acc pg)). P c"
proof -
  let ?init = "\<lparr>allChunks = fst acc, globalChunkIndex = snd acc, currentChunk = [],
                 chunkStartChar = page_startChar pg, cur_paragraphNumber = 0,
                 chunkStartParagraph = 0\<rparr>"
  let ?ps = "filter (\<lambda>p. length (trim p) > 0) (splitParagraphs (page_text pg))"
  let ?st = "foldl (processParagraph pg cs ov) ?init ?ps"
  have "\<forall>c\<in>set (allChunks ?st). P c"
    using old foldl_processParagraph_all [where P = P and st = ?init, OF new] by simp
  then have "\<forall>c\<in>set (allChunks (emitChunk (pageNumber pg) (cur_paragraphNumber ?st) ?st)). P c"
    using new by (simp add: emitChunk_def)
  then show ?thesis by (simp add: processPage_def Let_def)
qed

lemma processPage_indexed:
  assumes "indexed (fst acc) (snd acc)"
  shows "indexed (fst (processPage cs ov acc pg)) (snd (processPage cs ov acc pg))"
proof -
  let ?init = "\<lparr>allChunks = fst acc, globalChunkIndex = snd acc, currentChunk = [],
                 chunkStartChar = page_startChar pg, cur_paragraphNumber = 0,
                 chunkStartParagraph = 0\<rparr>"
  let ?ps = "filter (\<lambda>p. length (trim p) > 0) (splitParagraphs (page_text pg))"
  let ?st = "foldl (processParagraph pg cs ov) ?init ?ps"
  have "indexed (allChunks ?st) (globalChunkIndex ?st)"
    using assms foldl_processParagraph_indexed [where st = ?init] by simp
  then have "indexed (allChunks (emitChunk (pageNumber pg) (cur_paragraphNumber ?st) ?st))
      (globalChunkIndex (emitChunk (pageNumber pg) (cur_paragraphNumber ?st) ?st))"
    by (rule emitChunk_indexed)
  then show ?thesis by (simp add: processPage_def Let_def)
qed

lemma foldl_processPage_all:
  assumes new: "\<And>pn lp s. 0 < length (trim (currentChunk s)) \<Longrightarrow> P (makeChunk pn lp s)"
  shows "\<forall>c\<in>set (fst acc). P c \<Longrightarrow> \<forall>c\<in>set (fst (foldl (processPage cs ov) acc pgs)). P c"
proof (induction pgs arbitrary: acc)
  case Nil
  then show ?case by simp
next
  case (Cons pg pgs)
  have "\<forall>c\<in>set (fst (processPage cs ov acc pg)). P c"
    using processPage_all [where P = P, OF new Cons.prems] by blast
  then show ?case using Cons.IH by simp
qed

lemma foldl_processPage_indexed:
  "indexed (fst acc) (snd acc) \<Longrightarrow>
   indexed (fst (foldl (processPage cs ov) acc pgs)) (snd (foldl (processPage cs ov) acc pgs))"
  by (induction pgs arbitrary: acc) (simp_all add: processPage_indexed)

lemma every_chunk_is_made:
  assumes "\<And>pn lp s. 0 < length (trim (currentChunk s)) \<Longrightarrow> P (makeChunk pn lp s)"
  shows "\<forall>c\<in>set (splitIntoChunksWithMetadata pages cs ov). P c"
  unfolding splitIntoChunksWithMetadata_def
  using foldl_processPage_all [where P = P and acc = "([], 0)", OF assms] by simp

lemma length_trim_le: "length (trim s) \<le> length s"
proof -
  have "length (trim s) \<le> length (dropWhile isWhiteSpace s)"
    unfolding trim_def using length_dropWhile_le [of isWhiteSpace "rev (dropWhile isWhiteSpace s)"]
    by simp
  also have "\<dots> \<le> length s" by (rule length_dropWhile_le)
  finally show ?thesis .
qed

lemma leadingSpacePage_chunks:
  "splitIntoChunksWithMetadata [leadingSpacePage] 1000 200 =
   [\<lparr>chunk_text = ''a'', chunkIndex = 0,
     metadata = \<lparr>page = 1, paragraphNumber = 1, paragraphRange = SinglePara 1,
       startChar = 0, endChar = 2, chunkLength = 2\<rparr>\<rparr>]"
  unfolding leadingSpacePage_def by code_simp

lemma startChar_le_endChar:
  "\<forall>c\<in>set (splitIntoChunksWithMetadata pages chunkSize overlap).
     startChar (metadata c) \<le> endChar (metadata c)"
  by (rule every_chunk_is_made) (simp add: makeChunk_def)

subsection \<open>Character ranges\<close>

text \<open>
  Two paragraphs without whitespace, the first one character longer than the overlap and
  the two together longer than the chunk size: the second chunk starts two characters after
  the first and ends one character after the end of the page's text.
\<close>

lemma splitAcc_no_newline: "newline \<notin> set s \<Longrightarrow> splitAcc acc s = [rev acc @ s]"
  by (induction acc s rule: splitAcc.induct) auto

lemma dropWhile_absent: "\<forall>x\<in>set xs. \<not> P x \<Longrightarrow> dropWhile P xs = xs"
  by (cases xs) simp_all

lemma splitAcc_two_paragraphs:
  assumes "newline \<notin> set p1" and "newline \<notin> set p2"
  shows "splitAcc acc (p1 @ [newline, newline] @ p2) = [rev acc @ p1, p2]"
  using assms(1)
proof (induction p1 arbitrary: acc)
  case Nil
  have "dropWhile (\<lambda>x. x = newline) p2 = p2"
    using assms(2) by (intro dropWhile_absent) auto
  then show ?case
    using assms(2) by (simp add: splitAcc_no_newline)
next
  case (Cons c cs)
  then have c: "c \<noteq> newline" and cs: "newline \<notin> set cs" by auto
  obtain d rest where rest: "cs @ [newline, newline] @ p2 = d # rest"
    by (cases cs) auto
  have "splitAcc acc ((c # cs) @ [newline, newline] @ p2) = splitAcc acc (c # d # rest)"
    using rest by simp
  also have "\<dots> = splitAcc (c # acc) (d # rest)"
    using c by simp
  also have "\<dots> = [rev (c # acc) @ cs, p2]"
    using Cons.IH [OF cs, of "c # acc"] rest by simp
  finally show ?case by simp
qed

lemma trim_clean_ends:
  assumes "s \<noteq> []" and "\<not> isWhiteSpace (hd s)" and "\<not> isWhiteSpace (last s)"
  shows "trim s = s"
proof -
  have "dropWhile isWhiteSpace s = s"
    using assms(1,2) by (cases s) simp_all
  moreover have "dropWhile isWhiteSpace (rev s) = rev s"
    using assms(1,3) by (cases "rev s") (simp_all add: hd_rev [symmetric])
  ultimately show ?thesis by (simp add: trim_def)
qed

lemma indexOf_prefix: "prefix p t \<Longrightarrow> indexOf t p = 0"
  by (cases t) auto

lemma overlap_start_advances_by_two:
  assumes p1: "\<forall>c\<in>set p1. \<not> isWhiteSpace c" and p2: "\<forall>c\<in>set p2. \<not> isWhiteSpace c"
    and ne: "p2 \<noteq> []"
    and ov: "0 < overlap" and len1: "int (length p1) = overlap + 1"
    and fits: "int (length p1) \<le> chunkSize"
    and over: "chunkSize < int (length p1) + int (length p2)"
  shows "splitIntoChunksWithMetadata
       [\<lparr>pageNumber = n, page_text = p1 @ paragraphSeparator @ p2, page_startChar = s,
         page_endChar = s + int (length (p1 @ paragraphSeparator @ p2))\<rparr>] chunkSize overlap =
     [\<lparr>chunk_text = p1, chunkIndex = 0,
       metadata = \<lparr>page = n, paragraphNumber = 1, paragraphRange = SinglePara 1,
         startChar = s, endChar = s + int (length p1), chunkLength = int (length p1)\<rparr>\<rparr>,
      \<lparr>chunk_text = tl p1 @ paragraphSeparator @ p2, chunkIndex = 1,
       metadata = \<lparr>page = n, paragraphNumber = 2, paragraphRange = SinglePara 2,
         startChar = s + 2,
         endChar = s + int (length (p1 @ paragraphSeparator @ p2)) + 1,
         chunkLength = int (length p1) + 1 + int (length p2)\<rparr>\<rparr>]"
proof -
  let ?pg = "\<lparr>pageNumber = n, page_text = p1 @ paragraphSeparator @ p2, page_startChar = s,
         page_endChar = s + int (length (p1 @ paragraphSeparator @ p2))\<rparr>"
  have nl: "isWhiteSpace newline" by (simp add: isWhiteSpace_def newline_def)
  have nl1: "newline \<notin> set p1" and nl2: "newline \<notin> set p2"
    using p1 p2 nl by auto
  have ne1: "p1 \<noteq> []" using len1 ov by auto
  have tl1: "tl p1 \<noteq> []" using len1 ov by (cases p1) auto
  have t1: "trim p1 = p1"
    using ne1 p1 by (intro trim_clean_ends) simp_all
  have t2: "trim p2 = p2"
    using ne p2 by (intro trim_clean_ends) simp_all
  have paragraphs: "filter (\<lambda>p. length (trim p) > 0) (splitParagraphs (page_text ?pg)) = [p1, p2]"
    using splitAcc_two_paragraphs [OF nl1 nl2, of "[]"] ne ne1 t1 t2
    by (simp add: splitParagraphs_def paragraphSeparator_def)
  have idx: "indexOf (page_text ?pg) p1 = 0"
    by (rule indexOf_prefix) simp
  have sl: "slice_from p1 (- overlap) = tl p1"
    using len1 ov by (simp add: slice_from_def Let_def drop_Suc)
  have hd_tl: "\<not> isWhiteSpace (hd (tl p1))"
    using tl1 p1 by (metis hd_in_set list.set_sel(2) ne1)
  have t3: "trim (tl p1 @ paragraphSeparator @ p2) = tl p1 @ paragraphSeparator @ p2"
    using tl1 hd_tl ne p2 by (intro trim_clean_ends) simp_all
  have len_tl: "int (length (tl p1)) = overlap"
    using len1 ne1 by (cases p1) simp_all
  let ?first = "\<lparr>allChunks = [], globalChunkIndex = 0, currentChunk = p1,
      chunkStartChar = s, cur_paragraphNumber = 1, chunkStartParagraph = 1\<rparr>"
  let ?c1 = "\<lparr>chunk_text = p1, chunkIndex = 0,
       metadata = \<lparr>page = n, paragraphNumber = 1, paragraphRange = SinglePara 1,
         startChar = s, endChar = s + int (length p1), chunkLength = int (length p1)\<rparr>\<rparr>"
  let ?second = "\<lparr>allChunks = [?c1], globalChunkIndex = 1,
      currentChunk = tl p1 @ paragraphSeparator @ p2,
      chunkStartChar = s + 2, cur_paragraphNumber = 2, chunkStartParagraph = 2\<rparr>"
  have step1: "processParagraph pg chunkSize overlap
      \<lparr>allChunks = [], globalChunkIndex = 0, currentChunk = [], chunkStartChar = c0,
       cur_paragraphNumber = 0, chunkStartParagraph = 0\<rparr> p1 = ?first"
    if "page_startChar pg = s" and "indexOf (page_text pg) p1 = 0" for pg c0
    using that fits ne1 by (simp add: processParagraph_def Let_def)
  have step2: "processParagraph pg chunkSize overlap ?first p2 = ?second"
    if "pageNumber pg = n" for pg
    using that over len1 ov ne1 t1 sl len_tl
    by (simp add: processParagraph_def Let_def emitChunk_def makeChunk_def
        paragraphSeparator_def)
  have "processPage chunkSize overlap ([], 0) ?pg =
      (allChunks (emitChunk n 2 ?second), globalChunkIndex (emitChunk n 2 ?second))"
    unfolding processPage_def Let_def paragraphs
    using idx by (simp add: step1 step2)
  moreover have "int (length p1 - Suc 0) = overlap"
    using len1 ne1 by (cases p1) simp_all
  ultimately show ?thesis
    using t3 tl1 len1
    by (simp add: splitIntoChunksWithMetadata_def emitChunk_def makeChunk_def
        paragraphSeparator_def)
qed

lemma fullPage_chunks:
  "splitIntoChunksDefault [fullPage] =
     [\<lparr>chunk_text = replicate 201 (CHR ''a''), chunkIndex = 0,
       metadata = \<lparr>page = 1, paragraphNumber = 1, paragraphRange = SinglePara 1,
         startChar = 0, endChar = 201, chunkLength = 201\<rparr>\<rparr>,
      \<lparr>chunk_text = replicate 200 (CHR ''a'') @ paragraphSeparator @ replicate 1797 (CHR ''b''),
       chunkIndex = 1,
       metadata = \<lparr>page = 1, paragraphNumber = 2, paragraphRange = SinglePara 2,
         startChar = 2, endChar = 2001, chunkLength = 1999\<rparr>\<rparr>]"
proof -
  have "splitIntoChunksWithMetadata
       [\<lparr>pageNumber = 1,
         page_text = replicate 201 (CHR ''a'') @ paragraphSeparator @ replicate 1797 (CHR ''b''),
         page_startChar = 0,
         page_endChar = 0 + int (length (replicate 201 (CHR ''a'') @ paragraphSeparator @
           replicate 1797 (CHR ''b'')))\<rparr>] 1000 200 =
     [\<lparr>chunk_text = replicate 201 (CHR ''a''), chunkIndex = 0,
       metadata = \<lparr>page = 1, paragraphNumber = 1, paragraphRange = SinglePara 1,
         startChar = 0, endChar = 0 + int (length (replicate 201 (CHR ''a''))),
         chunkLength = int (length (replicate 201 (CHR ''a'')))\<rparr>\<rparr>,
      \<lparr>chunk_text = tl (replicate 201 (CHR ''a'')) @ paragraphSeparator @ replicate 1797 (CHR ''b''),
       chunkIndex = 1,
       metadata = \<lparr>page = 1, paragraphNumber = 2, paragraphRange = SinglePara 2,
         startChar = 0 + 2,
         endChar = 0 + int (length (replicate 201 (CHR ''a'') @ paragraphSeparator @
           replicate 1797 (CHR ''b''))) + 1,
         chunkLength = int (length (replicate 201 (CHR ''a''))) + 1 +
           int (length (replicate 1797 (CHR ''b'')))\<rparr>\<rparr>]"
    by (rule overlap_start_advances_by_two) (simp_all add: isWhiteSpace_def)
  moreover have "tl (replicate 201 (CHR ''a'')) = replicate 200 (CHR ''a'')"
    by (simp add: tl_replicate)
  ultimately show ?thesis
    by (simp add: splitIntoChunksDefault_def fullPage_def paragraphSeparator_def)
qed


text \<open>
  C1 (every chunk's \<open>startChar\<close> and \<open>endChar\<close> lie within the page's range, also after an
  overlap). On \<open>twoParagraphPage\<close> with \<open>chunkSize = 5\<close> and \<open>overlap = 3\<close> the first
  chunk is \<open>aaaa\<close> at \<open>[0, 4]\<close>. The second buffer is seeded with the overlap \<open>aaa\<close>; its start
  is set to the old start plus \<open>2\<close>, and its end is \<open>11\<close>, past the page's \<open>endChar = 10\<close>.
  With the default sizes, \<open>fullPage\<close> gives a second chunk that ends at \<open>2001\<close> on a page
  that ends at \<open>2000\<close>.
\<close>

theorem overlap_chunk_ends_past_page:
  "splitIntoChunksWithMetadata [twoParagraphPage] 5 3 =
     [\<lparr>chunk_text = ''aaaa'', chunkIndex = 0,
       metadata = \<lparr>page = 1, paragraphNumber = 1, paragraphRange = SinglePara 1,
         startChar = 0, endChar = 4, chunkLength = 4\<rparr>\<rparr>,
      \<lparr>chunk_text = ''aaa'' @ [newline, newline] @ ''bbbb'', chunkIndex = 1,
       metadata = \<lparr>page = 1, paragraphNumber = 2, paragraphRange = SinglePara 2,
         startChar = 2, endChar = 11, chunkLength = 9\<rparr>\<rparr>]
   \<and> page_startChar twoParagraphPage = 0 \<and> page_endChar twoParagraphPage = 10
   \<and> int (length (page_text twoParagraphPage)) = 10
   \<and> map (\<lambda>c. (startChar (metadata c), endChar (metadata c)))
         (splitIntoChunksDefault [fullPage]) = [(0, 201), (2, 2001)]
   \<and> page_startChar fullPage = 0 \<and> page_endChar fullPage = 2000
   \<and> int (length (page_text fullPage)) = 2000"
proof -
  have small: "splitIntoChunksWithMetadata [twoParagraphPage] 5 3 =
     [\<lparr>chunk_text = ''aaaa'', chunkIndex = 0,
       metadata = \<lparr>page = 1, paragraphNumber = 1, paragraphRange = SinglePara 1,
         startChar = 0, endChar = 4, chunkLength = 4\<rparr>\<rparr>,
      \<lparr>chunk_text = ''aaa'' @ [newline, newline] @ ''bbbb'', chunkIndex = 1,
       metadata = \<lparr>page = 1, paragraphNumber = 2, paragraphRange = SinglePara 2,
         startChar = 2, endChar = 11, chunkLength = 9\<rparr>\<rparr>]"
    unfolding twoParagraphPage_def by code_simp
  have smallPage: "page_startChar twoParagraphPage = 0 \<and> page_endChar twoParagraphPage = 10
      \<and> int (length (page_text twoParagraphPage)) = 10"
    by (simp add: twoParagraphPage_def)
  have full: "map (\<lambda>c. (startChar (metadata c), endChar (metadata c)))
         (splitIntoChunksDefault [fullPage]) = [(0, 201), (2, 2001)]"
    by (simp add: fullPage_chunks)
  have fullPageRange: "page_startChar fullPage = 0 \<and> page_endChar fullPage = 2000
      \<and> int (length (page_text fullPage)) = 2000"
    by (simp add: fullPage_def paragraphSeparator_def)
  show ?thesis
    using small smallPage full fullPageRange by blast
qed

subsection \<open>The recorded length\<close>

text \<open>
  C2 as stated (\<open>chunkLength\<close> is the length of the chunk's \<open>text\<close>) fails on
  \<open>leadingSpacePage\<close>: the text is the trimmed buffer \<open>a\<close>, of length \<open>1\<close>, and \<open>chunkLength\<close>
  is \<open>2\<close>, the length of the buffer before trimming.
\<close>

theorem chunkLength_differs_from_text_length:
  "splitIntoChunksWithMetadata [leadingSpacePage] 1000 200 \<noteq> [] \<and>
   chunkLength (metadata (hd (splitIntoChunksWithMetadata [leadingSpacePage] 1000 200))) \<noteq>
     int (length (chunk_text (hd (splitIntoChunksWithMetadata [leadingSpacePage] 1000 200))))"
  by (simp add: leadingSpacePage_chunks)

text \<open>
  Both pushes store \<open>currentChunk.trim()\<close> as the text and \<open>currentChunk.length\<close> as
  \<open>chunkLength\<close>. Whatever is read off a chunk that depends on the buffer alone is
  therefore the same function of the buffers of the call, in the order of the pushes.
\<close>

lemma emitChunk_trace:
  assumes "\<And>pn lp s. g (makeChunk pn lp s) = h (currentChunk s)"
  shows "map g (allChunks (emitChunk pn lp st)) =
     map g (allChunks st) @
     map h (if length (trim (currentChunk st)) > 0 then [currentChunk st] else [])"
  using assms by (simp add: emitChunk_def)

lemma processParagraph_trace:
  assumes "\<And>pn lp s. g (makeChunk pn lp s) = h (currentChunk s)"
  shows "map g (allChunks (processParagraph pg cs ov st p)) =
     map g (allChunks st) @
     map h (if int (length (currentChunk st)) + int (length p) > cs
               \<and> length (trim (currentChunk st)) > 0
            then [currentChunk st] else [])"
  using assms by (simp add: processParagraph_def Let_def emitChunk_def)

lemma foldl_processParagraph_trace:
  assumes "\<And>pn lp s. g (makeChunk pn lp s) = h (currentChunk s)"
  shows "map g (allChunks (emitChunk pn lp (foldl (processParagraph pg cs ov) st ps))) =
     map g (allChunks st) @ map h (buffersOfParagraphs pg cs ov st ps)"
proof (induction ps arbitrary: st)
  case Nil
  show ?case using emitChunk_trace [where g = g and h = h, OF assms] by simp
next
  case (Cons p ps)
  show ?case
    using Cons.IH [of "processParagraph pg cs ov st p"]
      processParagraph_trace [where g = g and h = h, OF assms, of pg cs ov st p]
    by simp
qed

lemma processPage_trace:
  assumes "\<And>pn lp s. g (makeChunk pn lp s) = h (currentChunk s)"
  shows "map g (fst (processPage cs ov acc pg)) =
     map g (fst acc) @
     map h (buffersOfParagraphs pg cs ov
       \<lparr>allChunks = fst acc, globalChunkIndex = snd acc, currentChunk = [],
        chunkStartChar = page_startChar pg, cur_paragraphNumber = 0,
        chunkStartParagraph = 0\<rparr>
       (filter (\<lambda>p. length (trim p) > 0) (splitParagraphs (page_text pg))))"
  unfolding processPage_def Let_def fst_conv
  using foldl_processParagraph_trace [where g = g and h = h, OF assms] by simp

lemma foldl_processPage_trace:
  assumes "\<And>pn lp s. g (makeChunk pn lp s) = h (currentChunk s)"
  shows "map g (fst (foldl (processPage cs ov) acc pgs)) =
     map g (fst acc) @ map h (chunkBuffersFrom cs ov acc pgs)"
proof (induction pgs arbitrary: acc)
  case Nil
  show ?case by simp
next
  case (Cons pg pgs)
  show ?case
    using Cons.IH [of "processPage cs ov acc pg"]
      processPage_trace [where g = g and h = h, OF assms, of cs ov acc pg]
    by simp
qed

lemma chunks_trace:
  assumes "\<And>pn lp s. g (makeChunk pn lp s) = h (currentChunk s)"
  shows "map g (splitIntoChunksWithMetadata pages cs ov) = map h (chunkBuffers pages cs ov)"
  using foldl_processPage_trace [where g = g and h = h, OF assms, of cs ov "([], 0)" pages]
  by (simp add: splitIntoChunksWithMetadata_def chunkBuffers_def)

lemma length_dropWhile_eq:
  assumes "length (dropWhile P xs) = length xs"
  shows "dropWhile P xs = xs"
proof -
  have "length (takeWhile P xs) + length (dropWhile P xs) = length xs"
    by (simp only: length_append [symmetric] takeWhile_dropWhile_id)
  then have "takeWhile P xs = []" using assms by simp
  then show ?thesis using takeWhile_dropWhile_id [of P xs] by simp
qed

lemma trim_same_length:
  "length (trim s) = length s \<longleftrightarrow> trim s = s"
proof
  assume eq: "length (trim s) = length s"
  let ?d = "dropWhile isWhiteSpace s"
  have a: "length (trim s) \<le> length ?d"
    unfolding trim_def using length_dropWhile_le [of isWhiteSpace "rev ?d"] by simp
  have b: "length ?d \<le> length s" by (rule length_dropWhile_le)
  have d: "?d = s" using a b eq by (intro length_dropWhile_eq) simp
  have "length (dropWhile isWhiteSpace (rev s)) = length (rev s)"
    using eq by (simp add: trim_def d)
  then have "dropWhile isWhiteSpace (rev s) = rev s" by (rule length_dropWhile_eq)
  then show "trim s = s" by (simp add: trim_def d)
next
  assume "trim s = s"
  then show "length (trim s) = length s" by simp
qed

lemma leadingSpacePage_buffers: "chunkBuffers [leadingSpacePage] 1000 200 = ['' a'']"
  unfolding leadingSpacePage_def chunkBuffers_def by code_simp

lemma twoParagraphPage_buffers:
  "chunkBuffers [twoParagraphPage] 5 3 = [''aaaa'', ''aaa'' @ [newline, newline] @ ''bbbb'']"
  unfolding twoParagraphPage_def chunkBuffers_def by code_simp

text \<open>
  C2, amended: the chunks of a call correspond one to one, in order, to the values of
  \<open>currentChunk\<close> at the pushes; the \<open>text\<close> of a chunk is that buffer trimmed and its
  \<open>chunkLength\<close> is the length of the buffer before trimming. So \<open>chunkLength\<close> is the
  length of the \<open>text\<close> exactly for the chunks whose buffer has no white space at either
  end, and it is never smaller than the length of the \<open>text\<close>.
\<close>

theorem chunkLength_is_buffer_length:
  "map (\<lambda>c. (chunk_text c, chunkLength (metadata c)))
       (splitIntoChunksWithMetadata pages chunkSize overlap) =
     map (\<lambda>buffer. (trim buffer, int (length buffer))) (chunkBuffers pages chunkSize overlap) \<and>
   map (\<lambda>c. chunkLength (metadata c) = int (length (chunk_text c)))
       (splitIntoChunksWithMetadata pages chunkSize overlap) =
     map (\<lambda>buffer. trim buffer = buffer) (chunkBuffers pages chunkSize overlap) \<and>
   (\<forall>c\<in>set (splitIntoChunksWithMetadata pages chunkSize overlap).
      int (length (chunk_text c)) \<le> chunkLength (metadata c))"
proof (intro conjI)
  show "map (\<lambda>c. (chunk_text c, chunkLength (metadata c)))
       (splitIntoChunksWithMetadata pages chunkSize overlap) =
     map (\<lambda>buffer. (trim buffer, int (length buffer))) (chunkBuffers pages chunkSize overlap)"
    by (rule chunks_trace) (simp add: makeChunk_def)
next
  have "(chunkLength (metadata (makeChunk pn lp s)) = int (length (chunk_text (makeChunk pn lp s))))
      = (trim (currentChunk s) = currentChunk s)" for pn lp s
    using trim_same_length [of "currentChunk s"] by (auto simp: makeChunk_def)
  then show "map (\<lambda>c. chunkLength (metadata c) = int (length (chunk_text c)))
       (splitIntoChunksWithMetadata pages chunkSize overlap) =
     map (\<lambda>buffer. trim buffer = buffer) (chunkBuffers pages chunkSize overlap)"
    by (rule chunks_trace)
next
  show "\<forall>c\<in>set (splitIntoChunksWithMetadata pages chunkSize overlap).
      int (length (chunk_text c)) \<le> chunkLength (metadata c)"
  proof (rule every_chunk_is_made)
    fix pn lp s
    show "int (length (chunk_text (makeChunk pn lp s))) \<le> chunkLength (metadata (makeChunk pn lp s))"
      using length_trim_le [of "currentChunk s"] by (simp add: makeChunk_def)
  qed
qed

theorem chunkLength_is_buffer_length_witness:
  "chunkBuffers [leadingSpacePage] 1000 200 = ['' a''] \<and>
   map (\<lambda>c. (chunk_text c, chunkLength (metadata c)))
       (splitIntoChunksWithMetadata [leadingSpacePage] 1000 200) = [(''a'', 2)] \<and>
   map (\<lambda>c. (chunk_text c, chunkLength (metadata c)))
       (splitIntoChunksWithMetadata [twoParagraphPage] 5 3) =
     [(''aaaa'', 4), (''aaa'' @ [newline, newline] @ ''bbbb'', 9)] \<and>
   hd (splitIntoChunksWithMetadata [leadingSpacePage] 1000 200)
     \<in> set (splitIntoChunksWithMetadata [leadingSpacePage] 1000 200) \<and>
   int (length (chunk_text (hd (splitIntoChunksWithMetadata [leadingSpacePage] 1000 200)))) \<le>
     chunkLength (metadata (hd (splitIntoChunksWithMetadata [leadingSpacePage] 1000 200)))"
proof -
  have mem: "hd (splitIntoChunksWithMetadata [leadingSpacePage] 1000 200)
     \<in> set (splitIntoChunksWithMetadata [leadingSpacePage] 1000 200)"
    by (simp add: leadingSpacePage_chunks)
  have trimmed: "trim '' a'' = ''a''" by code_simp
  note all = chunkLength_is_buffer_length [of "[leadingSpacePage]" 1000 200]
  have pairs: "map (\<lambda>c. (chunk_text c, chunkLength (metadata c)))
       (splitIntoChunksWithMetadata [leadingSpacePage] 1000 200) = [(''a'', 2)]"
    using all by (simp add: leadingSpacePage_buffers trimmed)
  have trimmedTwo: "map trim [''aaaa'', ''aaa'' @ [newline, newline] @ ''bbbb''] =
      [''aaaa'', ''aaa'' @ [newline, newline] @ ''bbbb'']"
    by code_simp
  have pairsTwo: "map (\<lambda>c. (chunk_text c, chunkLength (metadata c)))
       (splitIntoChunksWithMetadata [twoParagraphPage] 5 3) =
     [(''aaaa'', 4), (''aaa'' @ [newline, newline] @ ''bbbb'', 9)]"
    using chunkLength_is_buffer_length [of "[twoParagraphPage]" 5 3] trimmedTwo
    by (simp add: twoParagraphPage_buffers)
  have le: "int (length (chunk_text (hd (splitIntoChunksWithMetadata [leadingSpacePage] 1000 200)))) \<le>
     chunkLength (metadata (hd (splitIntoChunksWithMetadata [leadingSpacePage] 1000 200)))"
    using all mem by blast
  show ?thesis
    using leadingSpacePage_buffers pairs pairsTwo mem le by blast
qed

subsection \<open>The chunk index\<close>

text \<open>
  C8: in emission order the \<open>chunkIndex\<close> values of one call are exactly \<open>0, 1, 2, ...\<close>,
  whatever the pages: the counter is never reset between pages.
\<close>

theorem chunkIndex_counts_from_zero:
  "map chunkIndex (splitIntoChunksWithMetadata pages chunkSize overlap) =
     map int [0..<length (splitIntoChunksWithMetadata pages chunkSize overlap)]"
proof -
  have "indexed (fst ([], 0)) (snd ([], 0))" by (simp add: indexed_def)
  then have "indexed (fst (foldl (processPage chunkSize overlap) ([], 0) pages))
     (snd (foldl (processPage chunkSize overlap) ([], 0) pages))"
    by (rule foldl_processPage_indexed)
  then show ?thesis by (simp add: splitIntoChunksWithMetadata_def indexed_def)
qed

section \<open>Properties of the embedding gateway\<close>

subsection \<open>Slices and failing maps\<close>

lemma slice_take_drop: "slice xs (int i) (int (i + n)) = take n (drop i xs)"
proof (cases "i \<le> length xs")
  case True
  then show ?thesis by (simp add: slice_def Let_def min_def)
next
  case False
  then show ?thesis by (simp add: slice_def Let_def min_def)
qed

lemma allOrFirstError_Inr:
  "(\<forall>x\<in>set xs. e x = Inr (f x)) \<Longrightarrow> allOrFirstError (map e xs) = Inr (map f xs)"
  by (induction xs) simp_all


subsection \<open>Embedding many texts\<close>

text \<open>When every call of the service succeeds and there is at least one text, the result
  has one vector per text, in the order of the texts.\<close>

lemma embedBatches_all_succeed:
  "(\<forall>t\<in>set texts. e t = Inr (f t)) \<Longrightarrow>
   embedBatches e texts i acc = Inr (acc @ map f (drop i texts))"
proof (induction e texts i acc rule: embedBatches.induct)
  case (1 e texts i acc)
  show ?case
  proof (cases "i < length texts")
    case True
    have sub: "\<forall>t\<in>set (take batchSize (drop i texts)). e t = Inr (f t)"
      using "1.prems" by (meson in_set_dropD in_set_takeD)
    have batch: "allOrFirstError (map e (slice texts (int i) (int (i + batchSize)))) =
        Inr (map f (take batchSize (drop i texts)))"
      unfolding slice_take_drop using sub by (rule allOrFirstError_Inr)
    have "embedBatches e texts (i + batchSize) (acc @ map f (take batchSize (drop i texts))) =
        Inr ((acc @ map f (take batchSize (drop i texts))) @ map f (drop (i + batchSize) texts))"
      using "1.IH" [OF True batch] "1.prems" by simp
    moreover have "take batchSize (drop i texts) @ drop (i + batchSize) texts = drop i texts"
      by (metis add.commute append_take_drop_id drop_drop)
    ultimately have "embedBatches e texts (i + batchSize) (acc @ map f (take batchSize (drop i texts))) =
        Inr (acc @ map f (drop i texts))"
      by (metis append.assoc map_append)
    then show ?thesis
      using True batch by (subst embedBatches.simps) simp
  next
    case False
    then show ?thesis by (subst embedBatches.simps) simp
  qed
qed

lemma generateEmbeddings_nonempty:
  assumes "texts \<noteq> []" and "\<forall>t\<in>set texts. e t = Inr (f t)"
  shows "generateEmbeddings e texts = Inr (map f texts)"
proof -
  have "embedBatches e texts 0 [] = Inr (map f texts)"
    using embedBatches_all_succeed [OF assms(2), of 0 "[]"] by simp
  then show ?thesis
    using assms(1) by (cases texts) (simp_all add: generateEmbeddings_def)
qed

text \<open>
  C3 (\<open>generateEmbeddings\<close> returns, for every input including the empty one, as many
  vectors as texts). With no text the loop does not run, \<open>allEmbeddings\<close> stays empty, and
  the log line that reads \<open>allEmbeddings[0].length\<close> throws; the \<open>catch\<close> rethrows it. So on
  the empty sequence the function throws, whatever the service does.
\<close>

theorem generateEmbeddings_empty_throws:
  "generateEmbeddings service [] =
     Inl (Error (''Failed to generate embeddings: '' @ undefinedLengthMessage))"
  by (simp add: generateEmbeddings_def embedBatches.simps [of _ "[]"])

section \<open>Properties of the similarity\<close>

lemma foldl_cosine_sums:
  "foldl (\<lambda>(d, na, nb) (a, b). (d + a * b, na + a * a, nb + b * b)) (d0, na0, nb0) (zip xs ys)
   = (d0 + (\<Sum>(a, b)\<leftarrow>zip xs ys. a * b), na0 + (\<Sum>(a, b)\<leftarrow>zip xs ys. a * a),
      nb0 + (\<Sum>(a, b)\<leftarrow>zip xs ys. b * b))"
  for d0 na0 nb0 :: real
proof (induction xs arbitrary: ys d0 na0 nb0)
  case Nil
  then show ?case by simp
next
  case (Cons x xs)
  then show ?case by (cases ys) (simp_all add: algebra_simps)
qed

lemma sum_squares_zip:
  "length xs = length ys \<Longrightarrow>
   (\<Sum>(a, b)\<leftarrow>zip xs ys. a * a) = (\<Sum>a\<leftarrow>xs. a * a) \<and>
   (\<Sum>(a, b)\<leftarrow>zip xs ys. b * b) = (\<Sum>b\<leftarrow>ys. b * b)"
  for xs ys :: "real list"
  by (induction xs ys rule: list_induct2) simp_all

lemma cosineSimilarity_value:
  assumes "length vecA = length vecB"
  shows "cosineSimilarity vecA vecB =
    Inr (jsDiv (\<Sum>(a, b)\<leftarrow>zip vecA vecB. a * b)
           (sqrt (\<Sum>a\<leftarrow>vecA. a * a) * sqrt (\<Sum>b\<leftarrow>vecB. b * b)))"
  using assms sum_squares_zip [OF assms]
  by (simp add: cosineSimilarity_def foldl_cosine_sums)

lemma sum_squares_zero_iff:
  "(\<Sum>a\<leftarrow>xs. a * a) = 0 \<longleftrightarrow> (\<forall>x\<in>set xs. x = 0)" for xs :: "real list"
proof (induction xs)
  case Nil
  then show ?case by simp
next
  case (Cons x xs)
  have "0 \<le> (\<Sum>a\<leftarrow>xs. a * a)" by (rule sum_list_nonneg) auto
  moreover have "0 \<le> x * x" by simp
  ultimately have "x * x + (\<Sum>a\<leftarrow>xs. a * a) = 0 \<longleftrightarrow> x * x = 0 \<and> (\<Sum>a\<leftarrow>xs. a * a) = 0"
    by (simp add: add_nonneg_eq_0_iff)
  then show ?case using Cons by simp
qed

lemma dot_zero_left:
  "(\<forall>x\<in>set xs. x = 0) \<Longrightarrow> (\<Sum>(a, b)\<leftarrow>zip xs ys. a * b) = 0" for xs ys :: "real list"
proof (induction xs arbitrary: ys)
  case Nil
  then show ?case by simp
next
  case (Cons x xs)
  then show ?case by (cases ys) simp_all
qed

lemma dot_zero_right:
  "(\<forall>y\<in>set ys. y = 0) \<Longrightarrow> (\<Sum>(a, b)\<leftarrow>zip xs ys. a * b) = 0" for xs ys :: "real list"
proof (induction xs arbitrary: ys)
  case Nil
  then show ?case by simp
next
  case (Cons x xs)
  then show ?case by (cases ys) simp_all
qed

lemma cosineSimilarity_zero_operand:
  assumes "length vecA = length vecB"
    and "(\<forall>x\<in>set vecA. x = 0) \<or> (\<forall>x\<in>set vecB. x = 0)"
  shows "cosineSimilarity vecA vecB = Inr NaN"
proof -
  have dot: "(\<Sum>(a, b)\<leftarrow>zip vecA vecB. a * b) = 0"
    using assms(2) dot_zero_left dot_zero_right by blast
  have "(\<Sum>a\<leftarrow>vecA. a * a) = 0 \<or> (\<Sum>b\<leftarrow>vecB. b * b) = 0"
    using assms(2) sum_squares_zero_iff by blast
  then have "sqrt (\<Sum>a\<leftarrow>vecA. a * a) * sqrt (\<Sum>b\<leftarrow>vecB. b * b) = 0"
    by auto
  then show ?thesis
    using dot by (simp add: cosineSimilarity_value [OF assms(1)] jsDiv_def)
qed


subsection \<open>In exact arithmetic\<close>

text \<open>
  With the finite numbers taken as exact reals, the similarity does not depend on the order
  of its arguments, and a vector with a non-zero entry has similarity \<open>1\<close> to itself.
  Rounding, underflow and overflow of doubles are outside this model; they are the
  subject of the last section.
\<close>

lemma dot_commute:
  "(\<Sum>(a, b)\<leftarrow>zip xs ys. a * b) = (\<Sum>(b, a)\<leftarrow>zip ys xs. b * a)" for xs ys :: "real list"
proof (induction xs arbitrary: ys)
  case Nil
  then show ?case by simp
next
  case (Cons x xs)
  then show ?case by (cases ys) (simp_all add: mult.commute)
qed

lemma cosineSimilarity_commute: "cosineSimilarity vecA vecB = cosineSimilarity vecB vecA"
proof (cases "length vecA = length vecB")
  case True
  then have "length vecB = length vecA" by simp
  then show ?thesis
    using True dot_commute [of vecA vecB]
    by (simp add: cosineSimilarity_value mult.commute)
next
  case False
  then show ?thesis by (auto simp: cosineSimilarity_def)
qed

lemma dot_self: "(\<Sum>(a, b)\<leftarrow>zip xs xs. a * b) = (\<Sum>a\<leftarrow>xs. a * a)" for xs :: "real list"
  by (induction xs) simp_all

lemma cosineSimilarity_self:
  assumes "\<exists>x\<in>set v. x \<noteq> 0"
  shows "cosineSimilarity v v = Inr (Num 1)"
proof -
  have nonneg: "0 \<le> (\<Sum>a\<leftarrow>v. a * a)" by (rule sum_list_nonneg) auto
  have "(\<Sum>a\<leftarrow>v. a * a) \<noteq> 0" using assms sum_squares_zero_iff [of v] by blast
  then show ?thesis
    using nonneg by (simp add: cosineSimilarity_value dot_self jsDiv_def)
qed

subsection \<open>Zero vectors\<close>

text \<open>
  C6 as stated (a zero-norm operand makes \<open>cosineSimilarity\<close> raise) fails: for \<open>[0]\<close> and
  \<open>[1]\<close> it returns the value \<open>NaN\<close> and raises nothing.
\<close>

theorem cosineSimilarity_zero_vector_returns:
  "cosineSimilarity [0] [1] = Inr NaN \<and> \<not> isl (cosineSimilarity [0] [1])"
  by (simp add: cosineSimilarity_def jsDiv_def)

text \<open>
  C6, amended: \<open>cosineSimilarity\<close> raises exactly when the two lengths differ. On vectors of
  equal length it always returns a value, and that value is \<open>NaN\<close> when one of the vectors
  is all zeros: the division is not guarded.
\<close>

theorem cosineSimilarity_throws_only_on_length:
  "(length vecA \<noteq> length vecB \<longrightarrow>
      cosineSimilarity vecA vecB = Inl (Error ''Vectors must have same length'')) \<and>
   (length vecA = length vecB \<longrightarrow>
      (\<exists>s. cosineSimilarity vecA vecB = Inr s) \<and>
      ((\<forall>x\<in>set vecA. x = 0) \<or> (\<forall>x\<in>set vecB. x = 0) \<longrightarrow>
         cosineSimilarity vecA vecB = Inr NaN))"
  using cosineSimilarity_zero_operand [of vecA vecB] cosineSimilarity_value [of vecA vecB]
  by (auto simp: cosineSimilarity_def)

theorem cosineSimilarity_throws_only_on_length_witness:
  "cosineSimilarity [1, 0] [1] = Inl (Error ''Vectors must have same length'') \<and>
   cosineSimilarity [0, 0] [3, 4] = Inr NaN"
  using cosineSimilarity_throws_only_on_length [of "[1, 0]" "[1]"]
    cosineSimilarity_throws_only_on_length [of "[0, 0]" "[3, 4]"]
  by simp


section \<open>Properties of the vector index\<close>

subsection \<open>Sorting by score\<close>

lemma length_insertSorted: "length (insertSorted cmp x ys) = Suc (length ys)"
  by (induction ys) simp_all


lemma length_jsSort: "length (jsSort cmp xs) = length xs"
  unfolding jsSort_def by (induction xs) (simp_all add: length_insertSorted)







subsection \<open>What a search returns\<close>












subsection \<open>Concrete searches\<close>

lemma cos_examples:
  "cosineSimilarity [1, 0] [0, 1] = Inr (Num 0)"
  "cosineSimilarity [1, 0] [1, 0] = Inr (Num 1)"
  "cosineSimilarity [1, 0] [- 1, 0] = Inr (Num (- 1))"
  "cosineSimilarity [1] [0] = Inr NaN"
  "cosineSimilarity [1] [1] = Inr (Num 1)"
  by (simp_all add: cosineSimilarity_def jsDiv_def)


lemma exampleVectors_fallbackSearch:
  "fallbackSearch exampleVectors ''doc'' [1, 0] =
     Inr [\<lparr>s_text = ''chunk'', s_metadata = Some (metadata (exampleChunk 1)), score = Num 1\<rparr>,
          \<lparr>s_text = ''chunk'', s_metadata = Some (metadata (exampleChunk 3)), score = Num 1\<rparr>,
          \<lparr>s_text = ''chunk'', s_metadata = Some (metadata (exampleChunk 0)), score = Num 0\<rparr>]"
  by (simp add: fallbackSearch_def exampleVectors_def exampleVector_def scoreVector_def
      exampleChunk_def cos_examples jsSort_def slice_def topK_def)






subsection \<open>Adding a document\<close>

lemma enrichChunk_fields:
  "chunk_text (enrichChunk c e) = chunk_text c"
  "chunkIndex (enrichChunk c e) = chunkIndex c"
  "metadata (enrichChunk c e) = metadata c"
  "embedding (enrichChunk c e) = e"
  by (simp_all add: enrichChunk_def)




subsection \<open>Deleting a document\<close>

lemma fallbackSearch_without_vectors:
  assumes "\<forall>v\<in>set vs. docId v \<noteq> d"
  shows "fallbackSearch vs d q = Inr []"
proof -
  have "filter (\<lambda>v. docId v = d) vs = []"
    using assms by (simp add: filter_empty_conv)
  then show ?thesis
    by (simp add: fallbackSearch_def jsSort_def slice_def)
qed

lemma deleteOne_absent: "\<forall>x\<in>set xs. \<not> P x \<Longrightarrow> deleteOne P xs = xs"
  by (induction xs) simp_all

lemma find_deleteOne:
  "distinct (map key xs) \<Longrightarrow> find (\<lambda>x. key x = k) (deleteOne (\<lambda>x. key x = k) xs) = None"
proof (induction xs)
  case Nil
  then show ?case by simp
next
  case (Cons x xs)
  then show ?case by (auto simp: find_None_iff image_iff)
qed

text \<open>
  C7 as stated (after \<open>deleteDocument\<close> a search for the same \<open>docId\<close> returns an empty
  sequence, not an error, in both backends) fails for the in-memory store: \<open>search\<close> finds no
  entry and throws.
\<close>

theorem search_after_delete_throws:
  "search (snd (deleteDocument exampleStore ''doc'')) ''doc'' [1, 0] 5 =
     Inl (Error ''Document doc not found in vector store'') \<and>
   exampleStore ''doc'' \<noteq> None"
  by (simp add: search_def deleteDocument_def exampleStore_def)

text \<open>
  C7, amended: after \<open>deleteDocument(docId)\<close> the in-memory \<open>search\<close> for that \<open>docId\<close> throws
  the not-found error. After the delete route no vector of \<open>docId\<close> is left, so the
  brute-force scan for it yields the empty sequence, and the ask route answers 404 for it
  (document ids being unique). Deleting an id that is not there is not an error in either
  backend and changes nothing.
\<close>

theorem delete_then_search:
  "search (snd (deleteDocument store d)) d q k =
     Inl (Error (''Document '' @ d @ '' not found in vector store'')) \<and>
   (store d = None \<longrightarrow> deleteDocument store d = (False, store)) \<and>
   fst (deleteRoute db d) = Response 200 (MessageJson ''Document deleted successfully'') \<and>
   fallbackSearch (vectors (snd (deleteRoute db d))) d q = Inr [] \<and>
   (d \<noteq> [] \<and> qn \<noteq> [] \<and> distinct (map doc_id (documents db)) \<longrightarrow>
      askHandler env (snd (deleteRoute db d)) (Some d) (Some qn) =
        (Response 404 (ErrorJson ''Document not found''), [])) \<and>
   ((\<forall>v\<in>set (vectors db). docId v \<noteq> d) \<and> (\<forall>r\<in>set (documents db). doc_id r \<noteq> d) \<longrightarrow>
      snd (deleteRoute db d) = db)"
proof -
  have a: "search (snd (deleteDocument store d)) d q k =
     Inl (Error (''Document '' @ d @ '' not found in vector store''))"
    by (simp add: search_def deleteDocument_def)
  have b: "store d = None \<longrightarrow> deleteDocument store d = (False, store)"
    by (auto simp: deleteDocument_def)
  have c: "fst (deleteRoute db d) = Response 200 (MessageJson ''Document deleted successfully'')"
    by (simp add: deleteRoute_def)
  have e: "fallbackSearch (vectors (snd (deleteRoute db d))) d q = Inr []"
    by (rule fallbackSearch_without_vectors) (simp add: deleteRoute_def)
  have f: "askHandler env (snd (deleteRoute db d)) (Some d) (Some qn) =
        (Response 404 (ErrorJson ''Document not found''), [])"
    if "d \<noteq> []" "qn \<noteq> []" "distinct (map doc_id (documents db))"
    using that find_deleteOne [of doc_id "documents db" d]
    by (simp add: askHandler_def deleteRoute_def)
  have g: "snd (deleteRoute db d) = db"
    if "\<forall>v\<in>set (vectors db). docId v \<noteq> d" "\<forall>r\<in>set (documents db). doc_id r \<noteq> d"
  proof -
    have "filter (\<lambda>v. docId v \<noteq> d) (vectors db) = vectors db"
      using that(1) by (simp add: filter_id_conv)
    moreover have "deleteOne (\<lambda>r. doc_id r = d) (documents db) = documents db"
      using that(2) by (simp add: deleteOne_absent)
    ultimately show ?thesis by (simp add: deleteRoute_def)
  qed
  show ?thesis using a b c e f g by blast
qed

theorem delete_then_search_witness:
  "deleteDocument exampleStore ''missing'' = (False, exampleStore) \<and>
   deleteRoute exampleDatabase ''missing'' =
     (Response 200 (MessageJson ''Document deleted successfully''), exampleDatabase) \<and>
   askHandler exampleCollaborators (snd (deleteRoute exampleDatabase ''doc'')) (Some ''doc'')
       (Some ''why?'') = (Response 404 (ErrorJson ''Document not found''), []) \<and>
   fallbackSearch (vectors (snd (deleteRoute exampleDatabase ''doc''))) ''doc'' [1, 0] = Inr []"
proof -
  have none: "exampleStore ''missing'' = None"
    by (simp add: exampleStore_def)
  have absent: "(\<forall>v\<in>set (vectors exampleDatabase). docId v \<noteq> ''missing'') \<and>
      (\<forall>r\<in>set (documents exampleDatabase). doc_id r \<noteq> ''missing'')"
    by (simp add: exampleDatabase_def exampleVectors_def exampleVector_def exampleDocument_def)
  have ids: "distinct (map doc_id (documents exampleDatabase))"
    by (simp add: exampleDatabase_def exampleDocument_def)
  have "snd (deleteRoute exampleDatabase ''missing'') = exampleDatabase \<and>
      fst (deleteRoute exampleDatabase ''missing'') =
        Response 200 (MessageJson ''Document deleted successfully'')"
    using delete_then_search [of exampleStore "''missing''" "[1, 0]" 5 exampleDatabase]
      absent by blast
  then have route: "deleteRoute exampleDatabase ''missing'' =
     (Response 200 (MessageJson ''Document deleted successfully''), exampleDatabase)"
    by (simp add: prod_eq_iff)
  show ?thesis
    using delete_then_search [of exampleStore "''missing''" "[1, 0]" 5 exampleDatabase] none
      delete_then_search [of exampleStore "''doc''" "[1, 0]" 5 exampleDatabase "''why?''"
        exampleCollaborators] ids route
    by simp
qed


section \<open>Properties of the ask route\<close>

text \<open>The chat model is called exactly when retrieval found chunks, once, with the prompt
  built from them.\<close>

lemma ask_with_chunks_generates:
  assumes "d \<noteq> []" and "qn \<noteq> []"
    and "find (\<lambda>r. doc_id r = d) (documents db) = Some document"
    and "generateSingleEmbedding (embedContent env) qn = Inr questionEmbedding"
    and "retrieveChunks env db d questionEmbedding = Inr relevantChunks"
    and "relevantChunks \<noteq> []"
  shows "snd (askHandler env db (Some d) (Some qn)) =
     [buildPrompt (buildContext relevantChunks) qn]"
  using assms by (simp add: askHandler_def Let_def split: sum.splits)

lemma generation_needs_chunks:
  assumes "snd (askHandler env db reqDocId reqQuestion) \<noteq> []"
  shows "\<exists>d qn questionEmbedding relevantChunks.
     reqDocId = Some d \<and> reqQuestion = Some qn \<and>
     generateSingleEmbedding (embedContent env) qn = Inr questionEmbedding \<and>
     retrieveChunks env db d questionEmbedding = Inr relevantChunks \<and> relevantChunks \<noteq> []"
  using assms
  by (auto simp: askHandler_def Let_def split: option.splits sum.splits if_splits)

lemma example_generates:
  "snd (askHandler exampleCollaborators exampleDatabase (Some ''doc'') (Some ''why?'')) \<noteq> [] \<and>
   statusCode (fst (askHandler exampleCollaborators exampleDatabase (Some ''doc'') (Some ''why?''))) = 200 \<and>
   answer (json (fst (askHandler exampleCollaborators exampleDatabase (Some ''doc'') (Some ''why?'')))) = ''generated''"
proof -
  have doc: "find (\<lambda>r. doc_id r = ''doc'') (documents exampleDatabase) =
      Some (exampleDocument ''doc'')"
    by (simp add: exampleDatabase_def exampleDocument_def)
  have emb: "generateSingleEmbedding (embedContent exampleCollaborators) ''why?'' = Inr [1, 0]"
    by (simp add: generateSingleEmbedding_def exampleCollaborators_def)
  have ret: "retrieveChunks exampleCollaborators exampleDatabase ''doc'' [1, 0] =
     Inr [\<lparr>s_text = ''chunk'', s_metadata = Some (metadata (exampleChunk 1)), score = Num 1\<rparr>,
          \<lparr>s_text = ''chunk'', s_metadata = Some (metadata (exampleChunk 3)), score = Num 1\<rparr>,
          \<lparr>s_text = ''chunk'', s_metadata = Some (metadata (exampleChunk 0)), score = Num 0\<rparr>]"
    by (simp add: retrieveChunks_def exampleCollaborators_def exampleDatabase_def
        exampleVectors_fallbackSearch)
  have gen: "generateContent exampleCollaborators p = Inr ''generated''" for p
    by (simp add: exampleCollaborators_def)
  show ?thesis
    using doc emb ret gen by (simp add: askHandler_def Let_def)
qed

text \<open>
  C5: when the document exists and retrieval (vector search, or the fallback after its
  failure) returns no chunk, the response is the fixed informational answer with an empty
  list of sources, and \<open>chatModel.generateContent\<close> is not called.
\<close>

theorem ask_without_chunks_short_circuits:
  assumes "d \<noteq> []" and "qn \<noteq> []"
    and "find (\<lambda>r. doc_id r = d) (documents db) = Some document"
    and "generateSingleEmbedding (embedContent env) qn = Inr questionEmbedding"
    and "retrieveChunks env db d questionEmbedding = Inr []"
  shows "askHandler env db (Some d) (Some qn) =
     (Response 200 (AnswerJson noInformationAnswer qn d [] None), [])"
  using assms by (simp add: askHandler_def)

theorem ask_without_chunks_short_circuits_witness:
  "askHandler exampleCollaborators exampleDatabase (Some ''empty'') (Some ''why?'') =
     (Response 200 (AnswerJson noInformationAnswer ''why?'' ''empty'' [] None), []) \<and>
   retrieveChunks exampleCollaborators exampleDatabase ''empty'' [1, 0] = Inr []"
proof -
  have doc: "find (\<lambda>r. doc_id r = ''empty'') (documents exampleDatabase) =
      Some (exampleDocument ''empty'')"
    by (simp add: exampleDatabase_def exampleDocument_def)
  have emb: "generateSingleEmbedding (embedContent exampleCollaborators) ''why?'' = Inr [1, 0]"
    by (simp add: generateSingleEmbedding_def exampleCollaborators_def)
  have "\<forall>v\<in>set (vectors exampleDatabase). docId v \<noteq> ''empty''"
    by (simp add: exampleDatabase_def exampleVectors_def exampleVector_def)
  then have none: "retrieveChunks exampleCollaborators exampleDatabase ''empty'' [1, 0] = Inr []"
    by (simp add: retrieveChunks_def exampleCollaborators_def fallbackSearch_without_vectors)
  show ?thesis
    using ask_without_chunks_short_circuits [OF _ _ doc emb none] none by simp
qed

section \<open>Properties of the similarity in double arithmetic\<close>

subsection \<open>Rounding to the nearest double\<close>

text \<open>
  The rounded value differs from the exact one by at most half a quantum, which is at
  most \<open>2 ^ -53\<close> of the magnitude of a normal number, and every real up to the largest
  double rounds to a finite number.
\<close>

lemma roundHalfEven_error: "\<bar>of_int (roundHalfEven r) - r\<bar> \<le> 1 / 2"
proof -
  have "of_int \<lfloor>r\<rfloor> \<le> r" and "r < of_int \<lfloor>r\<rfloor> + 1" by linarith+
  then show ?thesis
    by (auto simp: roundHalfEven_def Let_def abs_le_iff)
qed

lemma roundHalfEven_nearest:
  assumes "\<bar>r - of_int j\<bar> < 1 / 2"
  shows "roundHalfEven r = j"
proof -
  have "\<bar>of_int (roundHalfEven r) - (of_int j :: real)\<bar> < 1"
    using roundHalfEven_error [of r] assms by linarith
  then have "\<bar>roundHalfEven r - j\<bar> < 1"
    by (metis of_int_1 of_int_abs of_int_diff of_int_less_iff)
  then show ?thesis by linarith
qed


lemma exponent_lower:
  assumes "x \<noteq> 0"
  shows "2 powr of_int (doubleExponent x) \<le> max \<bar>x\<bar> (2 powr (- 1022))"
proof (cases "\<lfloor>log 2 \<bar>x\<bar>\<rfloor> \<le> - 1022")
  case True
  then have "doubleExponent x = - 1022" by (simp add: doubleExponent_def)
  then show ?thesis by simp
next
  case False
  then have e: "doubleExponent x = \<lfloor>log 2 \<bar>x\<bar>\<rfloor>" by (simp add: doubleExponent_def)
  have "of_int \<lfloor>log 2 \<bar>x\<bar>\<rfloor> \<le> log 2 \<bar>x\<bar>" by simp
  then have "2 powr of_int \<lfloor>log 2 \<bar>x\<bar>\<rfloor> \<le> 2 powr log 2 \<bar>x\<bar>"
    by (intro powr_mono) simp_all
  also have "\<dots> = \<bar>x\<bar>" using assms by simp
  finally show ?thesis using e by simp
qed

lemma exponent_upper:
  assumes "x \<noteq> 0"
  shows "\<bar>x\<bar> < 2 powr (of_int (doubleExponent x) + 1)"
proof -
  have "log 2 \<bar>x\<bar> < of_int \<lfloor>log 2 \<bar>x\<bar>\<rfloor> + 1" by linarith
  also have "\<dots> \<le> of_int (doubleExponent x) + 1" by (simp add: doubleExponent_def)
  finally have "2 powr log 2 \<bar>x\<bar> < 2 powr (of_int (doubleExponent x) + 1)"
    by (intro powr_less_mono) simp_all
  then show ?thesis using assms by simp
qed

lemma exponent_le:
  assumes "x \<noteq> 0" and "\<bar>x\<bar> < 2 powr of_int k" and "- 1022 < k"
  shows "doubleExponent x \<le> k - 1"
proof -
  have "log 2 \<bar>x\<bar> < of_int k"
    using assms(1,2) by (simp add: log_less_iff)
  then have "\<lfloor>log 2 \<bar>x\<bar>\<rfloor> < k" by linarith
  then show ?thesis using assms(3) by (simp add: doubleExponent_def)
qed


lemma quantum_pos: "0 < doubleQuantum x"
  by (simp add: doubleQuantum_def)

lemma quantum_eq: "doubleQuantum x = 2 powr of_int (doubleExponent x) / 2 ^ 52"
  by (simp add: doubleQuantum_def powr_diff)

lemma quantum_mono:
  assumes "doubleExponent x \<le> k"
  shows "doubleQuantum x \<le> 2 powr (of_int k - 52)"
  unfolding doubleQuantum_def using assms by (intro powr_mono) simp_all

lemma candidate_error:
  "\<bar>of_int (roundHalfEven (x / doubleQuantum x)) * doubleQuantum x - x\<bar> \<le> doubleQuantum x / 2"
proof -
  let ?q = "doubleQuantum x"
  have q: "0 < ?q" by (rule quantum_pos)
  have "of_int (roundHalfEven (x / ?q)) * ?q - x = (of_int (roundHalfEven (x / ?q)) - x / ?q) * ?q"
    using q by (simp add: field_simps)
  then have "\<bar>of_int (roundHalfEven (x / ?q)) * ?q - x\<bar> =
      \<bar>of_int (roundHalfEven (x / ?q)) - x / ?q\<bar> * ?q"
    using q by (simp add: abs_mult)
  also have "\<dots> \<le> (1 / 2) * ?q"
    using roundHalfEven_error [of "x / ?q"] q by (intro mult_right_mono) simp_all
  finally show ?thesis by simp
qed

lemma half_quantum_le:
  assumes "x \<noteq> 0"
  shows "doubleQuantum x / 2 \<le> max \<bar>x\<bar> (2 powr (- 1022)) / 2 ^ 53"
proof -
  have "doubleQuantum x / 2 = 2 powr of_int (doubleExponent x) / 2 ^ 53"
    by (simp add: quantum_eq)
  also have "\<dots> \<le> max \<bar>x\<bar> (2 powr (- 1022)) / 2 ^ 53"
    using exponent_lower [OF assms] by (intro divide_right_mono) simp_all
  finally show ?thesis .
qed

lemma roundToDouble_cases:
  assumes "roundToDouble x = Num y"
  shows "y = of_int (roundHalfEven (x / doubleQuantum x)) * doubleQuantum x \<and> \<bar>y\<bar> < 2 ^ 1024"
proof (cases "x = 0")
  case True
  then show ?thesis using assms by (simp add: roundToDouble_def roundHalfEven_def)
next
  case False
  then show ?thesis
    using assms by (auto simp: roundToDouble_def Let_def split: if_splits)
qed

lemma roundToDouble_error:
  assumes "roundToDouble x = Num y"
  shows "\<bar>y - x\<bar> \<le> max \<bar>x\<bar> (2 powr (- 1022)) / 2 ^ 53"
proof (cases "x = 0")
  case True
  then show ?thesis using assms by (simp add: roundToDouble_def)
next
  case False
  have "y = of_int (roundHalfEven (x / doubleQuantum x)) * doubleQuantum x"
    using roundToDouble_cases [OF assms] by simp
  then have "\<bar>y - x\<bar> \<le> doubleQuantum x / 2"
    using candidate_error [of x] by simp
  then show ?thesis
    using half_quantum_le [OF False] by linarith
qed

lemma roundToDouble_finite:
  assumes "\<bar>x\<bar> \<le> 2 ^ 1024 - 2 ^ 971"
  shows "\<exists>y. roundToDouble x = Num y"
proof (cases "x = 0")
  case True
  then show ?thesis by (simp add: roundToDouble_def)
next
  case False
  let ?y = "of_int (roundHalfEven (x / doubleQuantum x)) * doubleQuantum x"
  have "(2::real) powr of_int 1024 = 2 ^ 1024" by simp
  moreover have "(0::real) < 2 ^ 971" by simp
  ultimately have "\<bar>x\<bar> < 2 powr of_int 1024"
    using assms by linarith
  then have "doubleExponent x \<le> 1023"
    using exponent_le [OF False, of 1024] by simp
  then have "doubleQuantum x \<le> 2 powr (of_int 1023 - 52)"
    by (rule quantum_mono)
  then have "doubleQuantum x \<le> 2 ^ 971"
    by simp
  moreover have "(0::real) < 2 ^ 971" by simp
  ultimately have "\<bar>?y\<bar> < 2 ^ 1024"
    using candidate_error [of x] assms by linarith
  then show ?thesis
    using False by (simp add: roundToDouble_def Let_def)
qed

subsection \<open>The grid of the doubles\<close>

text \<open>
  Every finite double is an integer multiple of \<open>2 powr (- 1074)\<close>. A positive real below
  half of that rounds to \<open>0\<close>, and below \<open>2 powr (- 1021)\<close> the rounding of a multiple is exact.
\<close>

lemma exponent_ge: "- 1022 \<le> doubleExponent x"
  by (simp add: doubleExponent_def)

lemma two_powr_int: "0 \<le> k \<Longrightarrow> (2::real) powr of_int k = of_int (2 ^ nat k)"
  by (simp add: powr_real_of_int)

lemma roundToDouble_grid:
  assumes "roundToDouble x = Num y"
  shows "\<exists>j::int. y = of_int j * 2 powr (- 1074)"
proof -
  let ?m = "roundHalfEven (x / doubleQuantum x)"
  let ?e = "doubleExponent x"
  have y: "y = of_int ?m * doubleQuantum x"
    using roundToDouble_cases [OF assms] by simp
  have "of_int ?e - (52::real) = of_int (?e + 1022) + (- 1074)" by simp
  then have "doubleQuantum x = 2 powr of_int (?e + 1022) * 2 powr (- 1074)"
    unfolding doubleQuantum_def by (simp only: powr_add)
  also have "\<dots> = of_int (2 ^ nat (?e + 1022)) * 2 powr (- 1074)"
    using exponent_ge [of x] by (subst two_powr_int) simp_all
  finally have "y = of_int (?m * 2 ^ nat (?e + 1022)) * 2 powr (- 1074)"
    using y by simp
  then show ?thesis by blast
qed

lemma roundToDouble_eq:
  assumes "x \<noteq> 0" and "roundHalfEven (x / doubleQuantum x) = m"
    and "\<bar>of_int m * doubleQuantum x\<bar> < 2 ^ 1024"
  shows "roundToDouble x = Num (of_int m * doubleQuantum x)"
  using assms by (simp add: roundToDouble_def Let_def)

lemma roundHalfEven_of_int: "roundHalfEven (of_int k) = k"
  by (rule roundHalfEven_nearest) simp

lemma roundToDouble_one: "roundToDouble 1 = Num 1"
proof -
  have e: "doubleExponent 1 = 0" by (simp add: doubleExponent_def)
  have q: "doubleQuantum 1 = 1 / 2 ^ 52"
    by (simp add: doubleQuantum_def e powr_minus_divide)
  have "roundHalfEven (1 / doubleQuantum 1) = 2 ^ 52"
    using roundHalfEven_of_int [of "2 ^ 52"] by (simp add: q)
  moreover have "\<bar>of_int (2 ^ 52) * doubleQuantum 1\<bar> < (2::real) ^ 1024"
  proof -
    have "(2::real) ^ 0 < 2 ^ 1024" by (rule power_strict_increasing) simp_all
    then show ?thesis by (simp add: q)
  qed
  ultimately have "roundToDouble 1 = Num (of_int (2 ^ 52) * doubleQuantum 1)"
    by (intro roundToDouble_eq) simp_all
  then show ?thesis by (simp add: q)
qed

lemma roundToDouble_exact:
  assumes "0 < p" and "p < 2 powr (- 1021)"
    and "\<bar>p - of_int j * 2 powr (- 1074)\<bar> < 2 powr (- 1075)"
  shows "roundToDouble p = Num (of_int j * 2 powr (- 1074))"
proof -
  have "log 2 p < - 1021"
    using assms(1,2) by (simp add: log_less_iff)
  then have "\<lfloor>log 2 p\<rfloor> \<le> - 1022" by linarith
  then have e: "doubleExponent p = - 1022"
    using assms(1) by (simp add: doubleExponent_def)
  have q: "doubleQuantum p = 2 powr (- 1074)"
    by (simp add: doubleQuantum_def e)
  have "(2::real) powr (- 1074 - 1) = 2 powr (- 1074) / 2 powr 1"
    by (rule powr_diff)
  then have half: "(2::real) powr (- 1075) = 2 powr (- 1074) / 2"
    by simp
  have "p / 2 powr (- 1074) - of_int j = (p - of_int j * 2 powr (- 1074)) / 2 powr (- 1074)"
    by (simp add: field_simps)
  then have "\<bar>p / 2 powr (- 1074) - of_int j\<bar> =
      \<bar>p - of_int j * 2 powr (- 1074)\<bar> / 2 powr (- 1074)"
    by (simp add: abs_divide)
  also have "\<dots> < (2 powr (- 1074) / 2) / 2 powr (- 1074)"
    using assms(3) half by (intro divide_strict_right_mono) simp_all
  also have "\<dots> = 1 / 2" by simp
  finally have m: "roundHalfEven (p / doubleQuantum p) = j"
    unfolding q by (rule roundHalfEven_nearest)
  define t where "t = of_int j * (2::real) powr (- 1074)"
  have "\<bar>p - t\<bar> < 2 powr (- 1075)" using assms(3) by (simp add: t_def)
  then have "\<bar>t\<bar> \<le> p + 2 powr (- 1075)"
    using assms(1) by linarith
  also have "\<dots> < 2 powr (- 1021) + 2 powr (- 1075)" using assms(2) by simp
  also have "\<dots> \<le> 2 powr 0 + 2 powr 0"
    by (intro add_mono powr_mono) simp_all
  also have "\<dots> < (2::real) ^ 1024"
  proof -
    have "(2::real) ^ 1 \<le> 2 ^ 1023" by (rule power_increasing) simp_all
    then show ?thesis by simp
  qed
  finally have "\<bar>of_int j * 2 powr (- 1074)\<bar> < (2::real) ^ 1024"
    by (simp add: t_def)
  then have "\<bar>of_int j * doubleQuantum p\<bar> < 2 ^ 1024"
    by (simp only: q)
  then have "roundToDouble p = Num (of_int j * doubleQuantum p)"
    using assms(1) m by (intro roundToDouble_eq) simp_all
  then show ?thesis by (simp only: q)
qed

lemma roundToDouble_underflow:
  assumes "0 < p" and "p < 2 powr (- 1075)"
  shows "roundToDouble p = Num 0"
proof -
  have "(2::real) powr (- 1075) \<le> 2 powr (- 1021)" by (intro powr_mono) simp_all
  then have "p < 2 powr (- 1021)" using assms(2) by linarith
  then show ?thesis
    using roundToDouble_exact [OF assms(1), of 0] assms by simp
qed

subsection \<open>The largest double\<close>

lemma int_below_power:
  assumes "\<bar>of_int j :: real\<bar> < 2 ^ n"
  shows "\<bar>of_int j :: real\<bar> \<le> 2 ^ n - 1"
proof -
  have "of_int \<bar>j\<bar> < (of_int (2 ^ n) :: real)"
    using assms by simp
  then have "\<bar>j\<bar> < 2 ^ n" by (simp only: of_int_less_iff)
  then have "\<bar>j\<bar> \<le> 2 ^ n - 1" by simp
  then have "(of_int \<bar>j\<bar> :: real) \<le> of_int (2 ^ n - 1)" by (simp only: of_int_le_iff)
  then show ?thesis by simp
qed

lemma roundToDouble_max:
  assumes "roundToDouble x = Num y"
  shows "\<bar>y\<bar> \<le> 2 ^ 1024 - 2 ^ 971"
proof (cases "x = 0")
  case True
  then show ?thesis using assms by (simp add: roundToDouble_def)
next
  case False
  let ?m = "roundHalfEven (x / doubleQuantum x)"
  let ?e = "doubleExponent x"
  have y: "y = of_int ?m * doubleQuantum x" and fin: "\<bar>y\<bar> < 2 ^ 1024"
    using roundToDouble_cases [OF assms] by blast+
  show ?thesis
  proof (cases "?e \<le> 1022")
    case True
    have "doubleQuantum x \<le> 2 powr (of_int 1022 - 52)"
      using True by (rule quantum_mono)
    then have q: "doubleQuantum x \<le> 2 ^ 970" by simp
    have "\<bar>x\<bar> < 2 powr (of_int ?e + 1)" by (rule exponent_upper [OF False])
    also have "\<dots> \<le> 2 powr 1023"
      using True by (intro powr_mono) simp_all
    finally have x: "\<bar>x\<bar> < 2 ^ 1023" by simp
    have "(2::real) ^ 1023 + 2 ^ 970 / 2 \<le> 2 ^ 1024 - 2 ^ 971" by simp
    then show ?thesis
      using candidate_error [of x] y q x by linarith
  next
    case False
    then have k: "0 \<le> ?e - 1023" by simp
    have "of_int ?e - (52::real) = of_int (?e - 1023) + 971" by simp
    then have "doubleQuantum x = 2 powr of_int (?e - 1023) * 2 powr 971"
      unfolding doubleQuantum_def by (simp only: powr_add)
    also have "\<dots> = of_int (2 ^ nat (?e - 1023)) * 2 ^ 971"
      using k by (subst two_powr_int) simp_all
    finally have q: "doubleQuantum x = of_int (2 ^ nat (?e - 1023)) * 2 ^ 971" .
    define j where "j = ?m * 2 ^ nat (?e - 1023)"
    have yk: "y = of_int j * 2 ^ 971"
      unfolding y q j_def by simp
    have "(2::real) ^ 1024 = 2 ^ 53 * 2 ^ 971" by (simp only: power_add [symmetric]) simp
    then have "\<bar>of_int j :: real\<bar> * 2 ^ 971 < 2 ^ 53 * 2 ^ 971"
      using fin unfolding yk by (simp only: abs_mult) simp
    then have "\<bar>of_int j :: real\<bar> < 2 ^ 53"
      by (rule mult_right_less_imp_less) simp
    then have "\<bar>of_int j :: real\<bar> \<le> 2 ^ 53 - 1"
      by (rule int_below_power)
    then have "\<bar>of_int j :: real\<bar> * 2 ^ 971 \<le> (2 ^ 53 - 1) * 2 ^ 971"
      by (intro mult_right_mono) simp_all
    moreover have "((2::real) ^ 53 - 1) * 2 ^ 971 = 2 ^ 1024 - 2 ^ 971"
      by (simp only: left_diff_distrib power_add [symmetric]) simp
    ultimately show ?thesis
      unfolding yk by (simp only: abs_mult) simp
  qed
qed

lemma roundToDouble_below:
  assumes "0 < x" and "x < 2 ^ 512 - 2 ^ 458" and "roundToDouble x = Num y"
  shows "y \<le> 2 ^ 512 - 2 ^ 459"
proof -
  let ?m = "roundHalfEven (x / doubleQuantum x)"
  let ?e = "doubleExponent x"
  have nz: "x \<noteq> 0" using assms(1) by simp
  have y: "y = of_int ?m * doubleQuantum x"
    using roundToDouble_cases [OF assms(3)] by blast
  have "(0::real) < 2 ^ 458" by simp
  then have "\<bar>x\<bar> < 2 ^ 512" using assms(1,2) by linarith
  then have "\<bar>x\<bar> < 2 powr of_int 512" by simp
  then have e: "?e \<le> 511"
    using exponent_le [OF nz, of 512] by simp
  show ?thesis
  proof (cases "?e \<le> 510")
    case True
    have "doubleQuantum x \<le> 2 powr (of_int 510 - 52)"
      using True by (rule quantum_mono)
    then have q: "doubleQuantum x \<le> 2 ^ 458" by simp
    have "\<bar>x\<bar> < 2 powr (of_int ?e + 1)" by (rule exponent_upper [OF nz])
    also have "\<dots> \<le> 2 powr 511"
      using True by (intro powr_mono) simp_all
    finally have x: "\<bar>x\<bar> < 2 ^ 511" by simp
    have "(2::real) ^ 511 + 2 ^ 458 / 2 \<le> 2 ^ 512 - 2 ^ 459" by simp
    then show ?thesis
      using candidate_error [of x] y q x by linarith
  next
    case False
    then have "?e = 511" using e by simp
    then have q: "doubleQuantum x = 2 ^ 459"
      by (simp add: doubleQuantum_def)
    have "x / 2 ^ 459 < (2 ^ 512 - 2 ^ 458) / 2 ^ 459"
      using assms(2) by (intro divide_strict_right_mono) simp_all
    also have "\<dots> = (2::real) ^ 53 - 1 / 2" by simp
    finally have "x / doubleQuantum x < 2 ^ 53 - 1 / 2" by (simp only: q)
    then have "(of_int ?m :: real) < 2 ^ 53"
      using roundHalfEven_error [of "x / doubleQuantum x"] by linarith
    then have "(of_int ?m :: real) < of_int (2 ^ 53)" by simp
    then have "?m < 2 ^ 53" by (simp only: of_int_less_iff)
    then have "?m \<le> 2 ^ 53 - 1" by simp
    then have "(of_int ?m :: real) \<le> of_int (2 ^ 53 - 1)" by (simp only: of_int_le_iff)
    then have "(of_int ?m :: real) \<le> 2 ^ 53 - 1" by simp
    then have "of_int ?m * (2::real) ^ 459 \<le> (2 ^ 53 - 1) * 2 ^ 459"
      by (intro mult_right_mono) simp_all
    also have "\<dots> = (2::real) ^ 512 - 2 ^ 459" by simp
    finally show ?thesis by (simp only: y q)
  qed
qed

subsection \<open>Integers\<close>

text \<open>
  An integer below \<open>2 ^ 53\<close> in magnitude is a double, and the sum of two integers is exact
  in double arithmetic while it stays below that bound: the integer arithmetic of the
  chunker's offsets and counters is that of the program on such values.
\<close>

lemma roundToDouble_zero: "roundToDouble 0 = Num 0"
  by (simp add: roundToDouble_def)

lemma roundToDouble_of_int:
  fixes k :: int
  assumes "\<bar>k\<bar> < 2 ^ 53"
  shows "roundToDouble (of_int k) = Num (of_int k)"
proof (cases "k = 0")
  case True
  then show ?thesis by (simp add: roundToDouble_def)
next
  case False
  let ?x = "of_int k :: real"
  let ?e = "doubleExponent ?x"
  let ?s = "(2::int) ^ nat (52 - ?e)"
  have nz: "?x \<noteq> 0" using False by simp
  have "\<bar>?x\<bar> < of_int (2 ^ 53)"
    using assms by (simp only: of_int_abs [symmetric] of_int_less_iff)
  then have small: "\<bar>?x\<bar> < 2 ^ 53" by simp
  then have "\<bar>?x\<bar> < 2 powr of_int 53" by simp
  then have e: "?e \<le> 52"
    using exponent_le [OF nz, of 53] by simp
  have "of_int ?e - (52::real) = - of_int (52 - ?e)" by simp
  then have "doubleQuantum ?x = 1 / 2 powr of_int (52 - ?e)"
    unfolding doubleQuantum_def by (simp only: powr_minus_divide)
  also have "\<dots> = 1 / of_int ?s"
    using e by (subst two_powr_int) simp_all
  finally have q: "doubleQuantum ?x = 1 / of_int ?s" .
  have "?x / doubleQuantum ?x = of_int (k * ?s)" by (simp add: q)
  then have m: "roundHalfEven (?x / doubleQuantum ?x) = k * ?s"
    by (simp only: roundHalfEven_of_int)
  have val: "of_int (k * ?s) * doubleQuantum ?x = ?x" by (simp add: q)
  have "(2::real) ^ 53 \<le> 2 ^ 1024" by (rule power_increasing) simp_all
  then have "\<bar>of_int (k * ?s) * doubleQuantum ?x\<bar> < 2 ^ 1024"
    using small unfolding val by linarith
  then have "roundToDouble ?x = Num (of_int (k * ?s) * doubleQuantum ?x)"
    using nz m by (intro roundToDouble_eq)
  then show ?thesis by (simp only: val)
qed

lemma roundToDouble_numeral:
  assumes "(numeral n :: int) < 2 ^ 53"
  shows "roundToDouble (numeral n) = Num (numeral n)"
  using roundToDouble_of_int [of "numeral n"] assms by simp

lemma safe_integer_add:
  fixes a b :: int
  assumes "\<bar>a + b\<bar> < 2 ^ 53"
  shows "doubleAdd (Num (of_int a)) (Num (of_int b)) = Num (of_int (a + b))"
  using roundToDouble_of_int [OF assms] by simp

lemma makeChunk_endChar_double:
  assumes "\<bar>chunkStartChar st + int (length (currentChunk st))\<bar> < 2 ^ 53"
  shows "doubleAdd (Num (of_int (chunkStartChar st))) (Num (of_int (int (length (currentChunk st)))))
     = Num (of_int (endChar (metadata (makeChunk pageNo lastParagraph st))))"
  using safe_integer_add [OF assms] by (simp add: makeChunk_def)

subsection \<open>The loop of the similarity\<close>

lemma doubleMul_commute: "doubleMul x y = doubleMul y x"
  by (cases x; cases y) (simp_all add: doubleMul_def mult.commute)

lemma accumulate_pair:
  "accumulate (d, x, y) (a, b) =
     (doubleAdd d (doubleMul (Num a) (Num b)),
      doubleAdd x (doubleMul (Num a) (Num a)),
      doubleAdd y (doubleMul (Num b) (Num b)))"
  by (simp add: accumulate_def)

lemma accumulate_swap:
  "foldl accumulate (d, y, x) (zip vecB vecA) =
     (case foldl accumulate (d, x, y) (zip vecA vecB) of (d', x', y') \<Rightarrow> (d', y', x'))"
proof (induction vecA arbitrary: vecB d x y)
  case Nil
  then show ?case by simp
next
  case (Cons a vecA)
  show ?case
  proof (cases vecB)
    case Nil
    then show ?thesis by simp
  next
    case (Cons b vecB')
    show ?thesis
      unfolding Cons
      by (simp add: accumulate_pair doubleMul_commute [of "Num b" "Num a"] Cons.IH)
  qed
qed

lemma cosineSimilarityDouble_commute:
  "cosineSimilarityDouble vecA vecB = cosineSimilarityDouble vecB vecA"
proof (cases "length vecA = length vecB")
  case True
  obtain d x y where f: "foldl accumulate (Num 0, Num 0, Num 0) (zip vecA vecB) = (d, x, y)"
    by (metis prod_cases3)
  then have "foldl accumulate (Num 0, Num 0, Num 0) (zip vecB vecA) = (d, y, x)"
    using accumulate_swap [of "Num 0" "Num 0" "Num 0" vecB vecA] by simp
  then show ?thesis
    using True f by (simp add: cosineSimilarityDouble_def doubleMul_commute [of "doubleSqrt x"])
next
  case False
  then show ?thesis by (auto simp: cosineSimilarityDouble_def)
qed

lemma accumulate_self:
  "foldl accumulate (s, s, s) (zip v v) =
     (foldl (\<lambda>s x. doubleAdd s (doubleMul (Num x) (Num x))) s v,
      foldl (\<lambda>s x. doubleAdd s (doubleMul (Num x) (Num x))) s v,
      foldl (\<lambda>s x. doubleAdd s (doubleMul (Num x) (Num x))) s v)"
  by (induction v arbitrary: s) (simp_all add: accumulate_pair)

lemma cosineSimilarityDouble_self:
  "cosineSimilarityDouble v v =
     Inr (doubleDiv (squaredNorm v)
            (doubleMul (doubleSqrt (squaredNorm v)) (doubleSqrt (squaredNorm v))))"
  by (simp add: cosineSimilarityDouble_def accumulate_self squaredNorm_def)

lemma doubleAdd_Num:
  assumes "doubleAdd x y = Num n"
  shows "\<exists>z. roundToDouble z = Num n"
  using assms by (cases x; cases y) auto

lemma squaredNorm_Num:
  assumes "squaredNorm v = Num n"
  shows "\<exists>z. roundToDouble z = Num n"
proof (cases v rule: rev_cases)
  case Nil
  then have "n = 0" using assms by (simp add: squaredNorm_def)
  then have "roundToDouble 0 = Num n" by (simp add: roundToDouble_def)
  then show ?thesis by blast
next
  case (snoc xs x)
  then show ?thesis
    using assms doubleAdd_Num by (auto simp: squaredNorm_def)
qed

lemma roundHalfEven_floor: "\<lfloor>r\<rfloor> \<le> roundHalfEven r"
  by (simp add: roundHalfEven_def Let_def)

lemma roundToDouble_nonneg:
  assumes "0 \<le> x"
  shows "roundToDouble x = PosInfinity \<or> (\<exists>y. roundToDouble x = Num y \<and> 0 \<le> y)"
proof (cases "x = 0")
  case True
  then show ?thesis by (simp add: roundToDouble_def)
next
  case False
  let ?m = "roundHalfEven (x / doubleQuantum x)"
  have "0 \<le> x / doubleQuantum x"
    using assms quantum_pos [of x] by simp
  then have "0 \<le> \<lfloor>x / doubleQuantum x\<rfloor>" by simp
  then have "0 \<le> ?m" using roundHalfEven_floor [of "x / doubleQuantum x"] by linarith
  then have "0 \<le> of_int ?m * doubleQuantum x"
    using quantum_pos [of x] by simp
  then show ?thesis
    using False by (auto simp: roundToDouble_def Let_def)
qed

lemma nonNegative_iff:
  "nonNegative s \<longleftrightarrow> s = PosInfinity \<or> (\<exists>y. s = Num y \<and> 0 \<le> y)"
  by (cases s) simp_all

lemma doubleAdd_nonNegative:
  assumes "nonNegative s" and "nonNegative t"
  shows "nonNegative (doubleAdd s t)"
proof -
  have "roundToDouble (a + b) = PosInfinity \<or> (\<exists>y. roundToDouble (a + b) = Num y \<and> 0 \<le> y)"
    if "0 \<le> a" and "0 \<le> b" for a b :: real
    using that by (intro roundToDouble_nonneg) simp
  then show ?thesis
    using assms unfolding nonNegative_iff by (cases s; cases t) auto
qed

lemma square_nonNegative: "nonNegative (doubleMul (Num x) (Num x))"
  using roundToDouble_nonneg [of "x * x"] by (simp add: doubleMul_def nonNegative_iff)

lemma foldl_squares_nonNegative:
  "nonNegative s \<Longrightarrow>
   nonNegative (foldl (\<lambda>s x. doubleAdd s (doubleMul (Num x) (Num x))) s v)"
  by (induction v arbitrary: s) (simp_all add: doubleAdd_nonNegative square_nonNegative)

lemma squaredNorm_cases:
  "squaredNorm v = PosInfinity \<or> (\<exists>n. squaredNorm v = Num n \<and> 0 \<le> n)"
proof -
  have "nonNegative (Num 0)" by (simp add: nonNegative_iff)
  then have "nonNegative (squaredNorm v)"
    unfolding squaredNorm_def by (rule foldl_squares_nonNegative)
  then show ?thesis by (simp add: nonNegative_iff)
qed

lemma cosineSimilarityDouble_zero_norm:
  assumes "squaredNorm v = Num 0"
  shows "cosineSimilarityDouble v v = Inr NaN"
  using assms by (simp add: cosineSimilarityDouble_self doubleMul_def roundToDouble_zero)

lemma cosineSimilarityDouble_infinite_norm:
  assumes "squaredNorm v = PosInfinity"
  shows "cosineSimilarityDouble v v = Inr NaN"
  using assms by (simp add: cosineSimilarityDouble_self doubleMul_def jsSign_def)

lemma squaredNorm_underflow:
  assumes "x \<noteq> 0" and "x * x < 2 powr (- 1075)"
  shows "squaredNorm [x] = Num 0"
proof -
  have "0 < x * x" using assms(1) by (cases "0 < x") (simp_all add: zero_less_mult_iff)
  then have "roundToDouble (x * x) = Num 0"
    using assms(2) by (intro roundToDouble_underflow)
  then show ?thesis
    by (simp add: squaredNorm_def doubleMul_def roundToDouble_zero)
qed

lemma squaredNorm_three_four: "squaredNorm [3, 4] = Num 25"
  by (simp add: squaredNorm_def doubleMul_def roundToDouble_numeral)

lemma cosineSimilarityDouble_three_four: "cosineSimilarityDouble [3, 4] [3, 4] = Inr (Num 1)"
proof -
  have "sqrt 25 = 5" by (rule real_sqrt_unique) simp_all
  then show ?thesis
    by (simp add: cosineSimilarityDouble_self squaredNorm_three_four doubleMul_def
        roundToDouble_numeral roundToDouble_one)
qed

subsection \<open>The similarity of a vector with itself\<close>

text \<open>
  Error analysis of \<open>n / (sqrt n * sqrt n)\<close> for a positive finite double \<open>n\<close>, each of the
  three operations rounded. The square root is a normal number; the product is either
  normal, with a relative error of at most \<open>2 ^ -53\<close>, or a subnormal multiple that the
  rounding of the square root misses by less than half a quantum. The quotient is within
  \<open>2 ^ -49\<close> of \<open>1\<close>.
\<close>

lemma two_powr_double: "(2::real) powr (a + 1) = 2 * 2 powr a"
  by (simp add: powr_add)

lemma unit_roundoff_facts:
  fixes u :: real
  assumes "u = 1 / 2 ^ 53"
  shows "0 < u" and "8 * u < 1" and "2 * u + u * u < 1 / 2 ^ 51"
    and "1 / 2 \<le> (1 - u) * (1 - u)"
    and "1 + u \<le> (1 + 16 * u) * ((1 - u) * (1 - u) * (1 - 8 * u))"
    and "(1 - 16 * u) * ((1 + u) * (1 + u) * (1 + 8 * u)) \<le> 1 - u"
    and "1 \<le> 2 * ((1 - u) * (1 - u) * (1 - 8 * u))"
    and "(1 + u) * (1 + u) * (1 + 8 * u) \<le> 2"
    and "16 * u = 1 / 2 ^ 49"
  unfolding assms by simp_all


lemma relative_bounds:
  fixes x y e :: real
  assumes "\<bar>y - x\<bar> \<le> x * e"
  shows "x * (1 - e) \<le> y" and "y \<le> x * (1 + e)"
  using assms by (simp_all add: algebra_simps abs_le_iff)

lemma self_similarity_steps:
  fixes n :: real
  assumes grid: "n = of_int j * 2 powr (- 1074)" and pos: "0 < n"
    and fin: "n \<le> 2 ^ 1024 - 2 ^ 971"
  shows "\<exists>r d res. roundToDouble (sqrt n) = Num r \<and> roundToDouble (r * r) = Num d \<and>
     d \<noteq> 0 \<and> roundToDouble (n / d) = Num res \<and> \<bar>res - 1\<bar> \<le> 1 / 2 ^ 49"
proof -
  define u :: real where "u = 1 / 2 ^ 53"
  note uf = unit_roundoff_facts [OF u_def]
  define s where "s = sqrt n"
  have s_pos: "0 < s" using pos by (simp add: s_def)
  have ss: "s * s = n" using pos by (simp add: s_def)
  have "0 < (of_int j :: real)"
    using pos unfolding grid by (simp add: zero_less_mult_iff)
  then have "1 \<le> j" by simp
  then have "(1::real) \<le> of_int j" by simp
  then have "1 * 2 powr (- 1074) \<le> of_int j * (2::real) powr (- 1074)"
    by (intro mult_right_mono) simp_all
  then have n_min: "2 powr (- 1074) \<le> n" by (simp add: grid)
  have "(2 powr (- 537))\<^sup>2 = (2::real) powr (- 537 + - 537)"
    by (simp only: power2_eq_square powr_add)
  then have "(2 powr (- 537))\<^sup>2 \<le> n" using n_min by simp
  then have s_min: "2 powr (- 537) \<le> s"
    unfolding s_def by (rule real_le_rsqrt)
  have "(2::real) powr (- 1022) \<le> 2 powr (- 537)" by (intro powr_mono) simp_all
  then have "2 powr (- 1022) \<le> s" using s_min by linarith
  then have s_norm: "max \<bar>s\<bar> (2 powr (- 1022)) = s"
    using s_pos by (simp add: max_def)
  have "(2 ^ 1024 - 2 ^ 971 :: real) < (2 ^ 512 - 2 ^ 458)\<^sup>2"
    by (simp add: power2_eq_square)
  then have "n < (2 ^ 512 - 2 ^ 458)\<^sup>2" using fin by linarith
  then have s_max: "s < 2 ^ 512 - 2 ^ 458"
    unfolding s_def by (intro real_less_lsqrt) simp_all
  have "(2 ^ 512 - 2 ^ 458 :: real) \<le> 2 ^ 1024 - 2 ^ 971" by simp
  then have "\<bar>s\<bar> \<le> 2 ^ 1024 - 2 ^ 971" using s_max s_pos by linarith
  then obtain r where r: "roundToDouble s = Num r"
    using roundToDouble_finite by blast
  have r_err: "\<bar>r - s\<bar> \<le> s * u"
    using roundToDouble_error [OF r] by (simp add: s_norm u_def)
  have r_lo: "s * (1 - u) \<le> r" and r_hi: "r \<le> s * (1 + u)"
    using relative_bounds [OF r_err] by simp_all
  have "0 < s * (1 - u)" using s_pos uf(1,2) by (intro mult_pos_pos) linarith+
  then have r_pos: "0 < r" using r_lo by linarith
  have r_top: "r \<le> 2 ^ 512 - 2 ^ 459"
    using s_pos s_max r by (rule roundToDouble_below)
  define p where "p = r * r"
  have p_pos: "0 < p" using r_pos by (simp add: p_def)
  have "(s * (1 - u)) * (s * (1 - u)) \<le> r * r"
    using r_lo \<open>0 < s * (1 - u)\<close> by (intro mult_mono) linarith+
  moreover have "(s * (1 - u)) * (s * (1 - u)) = (s * s) * ((1 - u) * (1 - u))"
    by (simp only: mult_ac)
  ultimately have p_lo: "n * ((1 - u) * (1 - u)) \<le> p" by (simp only: p_def ss)
  have "r * r \<le> (s * (1 + u)) * (s * (1 + u))"
    using r_hi r_pos by (intro mult_mono) linarith+
  moreover have "(s * (1 + u)) * (s * (1 + u)) = (s * s) * ((1 + u) * (1 + u))"
    by (simp only: mult_ac)
  ultimately have p_hi: "p \<le> n * ((1 + u) * (1 + u))" by (simp only: p_def ss)
  have "r * r \<le> (2 ^ 512 - 2 ^ 459) * (2 ^ 512 - 2 ^ 459)"
    using r_top r_pos by (intro mult_mono) linarith+
  moreover have "(2 ^ 512 - 2 ^ 459) * (2 ^ 512 - 2 ^ 459) \<le> (2 ^ 1024 - 2 ^ 971 :: real)"
    by simp
  ultimately have p_fin: "\<bar>p\<bar> \<le> 2 ^ 1024 - 2 ^ 971"
    using p_pos by (simp add: p_def)
  then obtain d where d: "roundToDouble p = Num d"
    using roundToDouble_finite by blast
  have d_err: "\<bar>d - p\<bar> \<le> max p (2 powr (- 1022)) * u"
    using roundToDouble_error [OF d] p_pos by (simp add: u_def)
  show ?thesis
  proof (cases "n \<le> 2 powr (- 1024)")
    case True
    have nu: "0 \<le> n * u" and nuu: "0 \<le> n * (u * u)"
      using pos uf(1) by simp_all
    have "\<bar>p - n\<bar> \<le> n * (2 * u + u * u)"
      using p_lo p_hi nu nuu by (simp add: algebra_simps abs_le_iff)
    also have "\<dots> \<le> 2 powr (- 1024) * (2 * u + u * u)"
      using True uf(1) by (intro mult_right_mono) simp_all
    also have "\<dots> < 2 powr (- 1024) * (1 / 2 ^ 51)"
      using uf(3) by (intro mult_strict_left_mono) simp_all
    also have "\<dots> = 2 powr (- 1024) * 2 powr (- 51)"
      by (simp add: powr_minus_divide)
    also have "\<dots> = 2 powr (- 1075)"
      by (simp only: powr_add [symmetric]) simp
    finally have near: "\<bar>p - of_int j * 2 powr (- 1074)\<bar> < 2 powr (- 1075)"
      by (simp only: grid)
    have near': "\<bar>p - n\<bar> < 2 powr (- 1075)"
      using near by (simp only: grid)
    have a: "(2::real) powr (- 1075) \<le> 2 powr (- 1024)" by (intro powr_mono) simp_all
    have "(2::real) powr (- 1024 + 1) = 2 * 2 powr (- 1024)"
      by (rule two_powr_double)
    then have b: "(2::real) powr (- 1023) = 2 * 2 powr (- 1024)" by simp
    have c: "(2::real) powr (- 1023) \<le> 2 powr (- 1021)" by (intro powr_mono) simp_all
    have "p < 2 powr (- 1021)"
      using near' True a b c by linarith
    then have "roundToDouble p = Num (of_int j * 2 powr (- 1074))"
      using p_pos near by (intro roundToDouble_exact)
    then have dn: "d = n" using d by (simp add: grid)
    have "roundToDouble (n / d) = Num 1"
      using pos by (simp add: dn roundToDouble_one)
    then show ?thesis
      using r d dn pos unfolding s_def p_def by force
  next
    case False
    then have n_big: "2 powr (- 1024) < n" by simp
    have "2 powr (- 1024) * (1 / 2) < n * ((1 - u) * (1 - u))"
      using n_big uf(4) by (intro mult_less_le_imp_less) simp_all
    moreover have "(2::real) powr (- 1025 + 1) = 2 * 2 powr (- 1025)"
      by (rule two_powr_double)
    ultimately have p_big: "2 powr (- 1025) < p"
      using p_lo by simp
    have "(2::real) powr (- 1025 + 1 + 1 + 1) = 2 * (2 * (2 * 2 powr (- 1025)))"
      by (simp only: two_powr_double)
    then have "(2::real) powr (- 1022) = 8 * 2 powr (- 1025)" by simp
    then have "max p (2 powr (- 1022)) \<le> 8 * p"
      using p_big p_pos by simp
    then have "max p (2 powr (- 1022)) * u \<le> 8 * p * u"
      using uf(1) by (intro mult_right_mono) simp_all
    then have "\<bar>d - p\<bar> \<le> p * (8 * u)"
      using d_err by (simp add: mult_ac)
    then have d_lo: "p * (1 - 8 * u) \<le> d" and d_hi: "d \<le> p * (1 + 8 * u)"
      using relative_bounds [of d p "8 * u"] by simp_all
    define L where "L = (1 - u) * (1 - u) * (1 - 8 * u)"
    define U where "U = (1 + u) * (1 + u) * (1 + 8 * u)"
    have L_pos: "0 < L" using uf(7) by (simp add: L_def)
    have U_pos: "0 < U" using uf(1) by (simp add: U_def)
    have "n * ((1 - u) * (1 - u)) * (1 - 8 * u) \<le> p * (1 - 8 * u)"
      using p_lo uf(2) by (intro mult_right_mono) simp_all
    then have nL: "n * L \<le> d" using d_lo by (simp add: L_def mult_ac)
    have "p * (1 + 8 * u) \<le> n * ((1 + u) * (1 + u)) * (1 + 8 * u)"
      using p_hi uf(1) by (intro mult_right_mono) simp_all
    then have nU: "d \<le> n * U" using d_hi by (simp add: U_def mult_ac)
    have d_pos: "0 < d"
      using nL L_pos pos by (meson less_le_trans mult_pos_pos)
    define t where "t = n / d"
    have t_pos: "0 < t" using pos d_pos by (simp add: t_def)
    have nL_pos: "0 < n * L" using pos L_pos by (rule mult_pos_pos)
    have "n / d \<le> n / (n * L)"
      using nL pos nL_pos by (intro frac_le) simp_all
    then have t_hi: "t \<le> 1 / L" using pos by (simp add: t_def)
    have "n / (n * U) \<le> n / d"
      using nU pos d_pos by (intro frac_le) simp_all
    then have t_lo: "1 / U \<le> t" using pos by (simp add: t_def)
    have "1 / L \<le> 2"
      using uf(7) L_pos by (simp add: L_def field_simps)
    then have t_two: "t \<le> 2" using t_hi by linarith
    have "1 / 2 \<le> 1 / U"
      using uf(8) U_pos by (simp add: U_def field_simps)
    then have t_half: "1 / 2 \<le> t" using t_lo by linarith
    have "(2::real) powr (- 1022) \<le> 2 powr (- 1)" by (intro powr_mono) simp_all
    then have "(2::real) powr (- 1022) \<le> 1 / 2" by (simp add: powr_minus_divide)
    then have "2 powr (- 1022) \<le> t" using t_half by linarith
    then have t_norm: "max \<bar>t\<bar> (2 powr (- 1022)) = t"
      using t_pos by (simp add: max_def)
    have "(2::real) ^ 1 \<le> 2 ^ 1024 - 2 ^ 971" by simp
    then have "\<bar>t\<bar> \<le> 2 ^ 1024 - 2 ^ 971" using t_two t_pos by simp
    then obtain res where res: "roundToDouble t = Num res"
      using roundToDouble_finite by blast
    have "\<bar>res - t\<bar> \<le> t * u"
      using roundToDouble_error [OF res] by (simp add: t_norm u_def)
    then have res_lo: "t * (1 - u) \<le> res" and res_hi: "res \<le> t * (1 + u)"
      using relative_bounds [of res t u] by simp_all
    have "t * (1 + u) \<le> (1 / L) * (1 + u)"
      using t_hi uf(1) by (intro mult_right_mono) simp_all
    also have "\<dots> \<le> 1 + 16 * u"
      using uf(5) L_pos by (simp add: L_def field_simps)
    finally have up: "res \<le> 1 + 16 * u" using res_hi by linarith
    have "1 - 16 * u \<le> (1 / U) * (1 - u)"
      using uf(6) U_pos by (simp add: U_def field_simps)
    also have "\<dots> \<le> t * (1 - u)"
      using t_lo uf(1,2) by (intro mult_right_mono) simp_all
    finally have lo: "1 - 16 * u \<le> res" using res_lo by linarith
    have "\<bar>res - 1\<bar> \<le> 16 * u" using up lo by (simp add: abs_le_iff)
    then have "\<bar>res - 1\<bar> \<le> 1 / 2 ^ 49" using uf(9) by simp
    then show ?thesis
      using r d d_pos res unfolding s_def p_def t_def by force
  qed
qed

text \<open>
  C9 as stated (\<open>cosineSimilarity(v, v)\<close> is \<open>1\<close> within floating-point tolerance for every
  non-zero \<open>v\<close>) fails for the vector whose only entry is the double \<open>2 ^ -600\<close>: the square
  \<open>2 ^ -1200\<close> is below half of the smallest positive double and rounds to \<open>0\<close>, so both norms
  are \<open>0\<close> and the result is \<open>0 / 0\<close>, which is \<open>NaN\<close>. By \<open>squaredNorm_underflow\<close> the same
  happens for every entry whose square is below \<open>2 powr (- 1075)\<close>, such as \<open>1e-200\<close>.
\<close>

theorem similarity_of_tiny_vector_is_NaN:
  "cosineSimilarityDouble [1 / 2 ^ 600] [1 / 2 ^ 600] = Inr NaN \<and> (1::real) / 2 ^ 600 \<noteq> 0"
proof -
  define x :: real where "x = 1 / 2 ^ 600"
  have nz: "x \<noteq> 0" by (simp add: x_def)
  have "x * x < 1 / 2 ^ 1075" unfolding x_def by simp
  then have "x * x < 2 powr (- 1075)"
    by (simp only: powr_minus_divide powr_numeral zero_le_numeral)
  then have "squaredNorm [x] = Num 0" using nz by (intro squaredNorm_underflow)
  then have "cosineSimilarityDouble [x] [x] = Inr NaN"
    by (rule cosineSimilarityDouble_zero_norm)
  then show ?thesis using nz unfolding x_def by simp
qed

text \<open>
  C9, amended: in double arithmetic \<open>cosineSimilarity(a, b)\<close> and \<open>cosineSimilarity(b, a)\<close>
  are the same result for all vectors (the same number, \<open>NaN\<close> both ways, or the length
  error both ways). For a vector \<open>v\<close> whose squared norm, as the loop computes it, is a
  positive finite number, \<open>cosineSimilarity(v, v)\<close> is a number within \<open>2 ^ -49\<close> of \<open>1\<close>. When
  the computed squared norm is \<open>0\<close> (a zero vector, or squares that underflow) or \<open>Infinity\<close>
  (squares that overflow) the result is \<open>NaN\<close>. By \<open>squaredNorm_cases\<close> there is no other
  case.
\<close>

theorem similarity_symmetric_and_self_close_to_one:
  "cosineSimilarityDouble vecA vecB = cosineSimilarityDouble vecB vecA \<and>
   (squaredNorm v = Num n \<and> 0 < n \<longrightarrow>
      (\<exists>r. cosineSimilarityDouble v v = Inr (Num r) \<and> \<bar>r - 1\<bar> \<le> 1 / 2 ^ 49)) \<and>
   (squaredNorm v = Num 0 \<or> squaredNorm v = PosInfinity \<longrightarrow>
      cosineSimilarityDouble v v = Inr NaN)"
proof (intro conjI impI)
  show "cosineSimilarityDouble vecA vecB = cosineSimilarityDouble vecB vecA"
    by (rule cosineSimilarityDouble_commute)
next
  assume a: "squaredNorm v = Num n \<and> 0 < n"
  then obtain z where z: "roundToDouble z = Num n"
    using squaredNorm_Num by blast
  obtain j :: int where grid: "n = of_int j * 2 powr (- 1074)"
    using roundToDouble_grid [OF z] by blast
  have "\<bar>n\<bar> \<le> 2 ^ 1024 - 2 ^ 971" by (rule roundToDouble_max [OF z])
  then have fin: "n \<le> 2 ^ 1024 - 2 ^ 971" by linarith
  obtain r d res where r: "roundToDouble (sqrt n) = Num r"
    and d: "roundToDouble (r * r) = Num d" and nz: "d \<noteq> 0"
    and res: "roundToDouble (n / d) = Num res" and close: "\<bar>res - 1\<bar> \<le> 1 / 2 ^ 49"
    using self_similarity_steps [OF grid _ fin] a by blast
  have "cosineSimilarityDouble v v = Inr (Num res)"
    using a r d nz res by (simp add: cosineSimilarityDouble_self doubleMul_def)
  then show "\<exists>r. cosineSimilarityDouble v v = Inr (Num r) \<and> \<bar>r - 1\<bar> \<le> 1 / 2 ^ 49"
    using close by blast
next
  assume "squaredNorm v = Num 0 \<or> squaredNorm v = PosInfinity"
  then show "cosineSimilarityDouble v v = Inr NaN"
    using cosineSimilarityDouble_zero_norm cosineSimilarityDouble_infinite_norm by blast
qed

theorem similarity_symmetric_and_self_close_to_one_witness:
  "squaredNorm [3, 4] = Num 25 \<and>
   (\<exists>r. cosineSimilarityDouble [3, 4] [3, 4] = Inr (Num r) \<and> \<bar>r - 1\<bar> \<le> 1 / 2 ^ 49) \<and>
   squaredNorm [0, 0] = Num 0 \<and>
   cosineSimilarityDouble [0, 0] [0, 0] = Inr NaN \<and>
   cosineSimilarityDouble [3, 4] [4, 3] = cosineSimilarityDouble [4, 3] [3, 4]"
proof -
  have zero: "squaredNorm [0, 0] = Num 0"
    by (simp add: squaredNorm_def doubleMul_def roundToDouble_zero)
  show ?thesis
    using squaredNorm_three_four zero
      similarity_symmetric_and_self_close_to_one [of "[3, 4]" "[4, 3]" "[3, 4]" 25]
      similarity_symmetric_and_self_close_to_one [of "[3, 4]" "[4, 3]" "[0, 0]" 0]
    by simp
qed

end
